theory Spec2Isabelle
  imports Main "HOL-Library.Word" "HOL-Library.Monad_Syntax"
begin

unbundle bit_operations_syntax

section \<open>JavaScript values used by \<^verbatim>\<open>js/qr-generator.js\<close>\<close>

text \<open>
  The encoder works on JavaScript numbers, typed arrays and strings.
  \<^item> A number is modelled by the integer it holds (\<open>int\<close>); the bitwise operators first
    convert their operands with \<open>ToInt32\<close> / \<open>ToUint32\<close>, which is where the 32-bit
    wrap-around of the source comes from.
  \<^item> An element of a \<open>Uint8Array\<close> is a \<open>byte\<close>; the array is a list of bytes.
  \<^item> A string that the source builds itself (the binary string handed to \<open>btoa\<close>, base64
    text, the URL) only holds code units below 256 and is a \<open>string\<close>; a string supplied
    by the caller (a channel name) is a list of UTF-16 code units.
  \<^item> A function that can fail to return a value returns an \<open>option\<close>; \<open>None\<close> says
    that the call does not complete normally.
\<close>

type_synonym byte = "8 word"
type_synonym jsstring = "16 word list"

definition ToInt32 :: "int \<Rightarrow> int" where
  "ToInt32 x = (let u = x mod 2 ^ 32 in if u \<ge> 2 ^ 31 then u - 2 ^ 32 else u)"

definition ToUint32 :: "int \<Rightarrow> int" where
  "ToUint32 x = x mod 2 ^ 32"

text \<open>\<^verbatim>\<open>a & b\<close>, \<^verbatim>\<open>a | b\<close>, \<^verbatim>\<open>a << n\<close> and \<^verbatim>\<open>a >>> n\<close>.\<close>

definition js_and :: "int \<Rightarrow> int \<Rightarrow> int" where
  "js_and a b = ToInt32 a AND ToInt32 b"

definition js_or :: "int \<Rightarrow> int \<Rightarrow> int" where
  "js_or a b = ToInt32 a OR ToInt32 b"

definition js_shl :: "int \<Rightarrow> int \<Rightarrow> int" where
  "js_shl a n = ToInt32 (push_bit (nat (ToUint32 n mod 32)) (ToInt32 a))"

definition js_ushr :: "int \<Rightarrow> int \<Rightarrow> int" where
  "js_ushr a n = drop_bit (nat (ToUint32 n mod 32)) (ToUint32 a)"

text \<open>\<^verbatim>\<open>new Uint8Array(numbers)\<close> stores every number modulo 256.\<close>

definition uint8Array :: "int list \<Rightarrow> byte list" where
  "uint8Array xs = map word_of_int xs"

text \<open>A string literal of the source as UTF-16 code units.\<close>

definition js_literal :: "string \<Rightarrow> jsstring" where
  "js_literal s = map (\<lambda>c. of_nat (of_char c)) s"

subsection \<open>\<^verbatim>\<open>TextEncoder.encode\<close>\<close>

text \<open>
  Modelled from the spec: the UTF-8 string encoder for the \<open>name\<close> field, which the
  encoder takes from its platform (\<^verbatim>\<open>new TextEncoder().encode(str)\<close>), is not repository
  code. Surrogate pairs are combined into one code point, a lone surrogate is replaced by
  U+FFFD, and every code point is written in UTF-8.
\<close>

definition isHighSurrogate :: "16 word \<Rightarrow> bool" where
  "isHighSurrogate u = (0xD800 \<le> u \<and> u \<le> 0xDBFF)"

definition isLowSurrogate :: "16 word \<Rightarrow> bool" where
  "isLowSurrogate u = (0xDC00 \<le> u \<and> u \<le> 0xDFFF)"

definition scalarValue :: "16 word \<Rightarrow> nat" where
  "scalarValue u = (if isHighSurrogate u \<or> isLowSurrogate u then 0xFFFD else unat u)"

fun codePoints :: "jsstring \<Rightarrow> nat list" where
  "codePoints [] = []"
| "codePoints [u] = [scalarValue u]"
| "codePoints (u # v # rest) =
     (if isHighSurrogate u \<and> isLowSurrogate v
      then (0x10000 + (unat u - 0xD800) * 0x400 + (unat v - 0xDC00)) # codePoints rest
      else scalarValue u # codePoints (v # rest))"

definition utf8 :: "nat \<Rightarrow> byte list" where
  "utf8 c =
     (if c < 0x80 then [of_nat c]
      else if c < 0x800 then [of_nat (0xC0 + c div 64), of_nat (0x80 + c mod 64)]
      else if c < 0x10000 then
        [of_nat (0xE0 + c div 4096), of_nat (0x80 + c div 64 mod 64), of_nat (0x80 + c mod 64)]
      else
        [of_nat (0xF0 + c div 262144), of_nat (0x80 + c div 4096 mod 64),
         of_nat (0x80 + c div 64 mod 64), of_nat (0x80 + c mod 64)])"

definition TextEncoder_encode :: "jsstring \<Rightarrow> byte list" where
  "TextEncoder_encode str = concat (map utf8 (codePoints str))"

section \<open>Protobuf-lite encoding\<close>

subsection \<open>Wire types\<close>

definition VARINT :: int where "VARINT = 0"
definition FIXED64 :: int where "FIXED64 = 1"
definition LENGTH_DELIMITED :: int where "LENGTH_DELIMITED = 2"
definition FIXED32 :: int where "FIXED32 = 5"

subsection \<open>\<^verbatim>\<open>encodeVarint\<close>\<close>

text \<open>
  \<^verbatim>\<open>
  function encodeVarint(value) {
    const bytes = [];
    while (value > 0x7f) {
      bytes.push((value & 0x7f) | 0x80);
      value >>>= 7;
    }
    bytes.push(value & 0x7f);
    return new Uint8Array(bytes);
  }
  \<close>
  The loop, with the array \<open>bytes\<close> and the variable \<open>value\<close> as its state. It ends
  because \<^verbatim>\<open>value >>> 7\<close> is smaller than a \<open>value\<close> above 127.
\<close>

function encodeVarint_loop :: "int list \<Rightarrow> int \<Rightarrow> int list" where
  "encodeVarint_loop bytes v =
     (if v > 0x7f
      then encodeVarint_loop (bytes @ [js_or (js_and v 0x7f) 0x80]) (js_ushr v 7)
      else bytes @ [js_and v 0x7f])"
  by pat_completeness auto

lemma js_ushr_7: "js_ushr v 7 = (v mod 2 ^ 32) div 128"
  by (simp add: js_ushr_def ToUint32_def drop_bit_eq_div)

lemma js_ushr_7_less:
  assumes v: "127 < v"
  shows "nat (js_ushr v 7) < nat v"
proof -
  have "v mod 2 ^ 32 \<le> v" using v by (simp add: zmod_le_nonneg_dividend)
  then have "(v mod 2 ^ 32) div 128 \<le> v div 128" by (simp add: zdiv_mono1)
  moreover have "v div 128 < v" using v by simp
  moreover have "js_ushr v 7 = (v mod 2 ^ 32) div 128" by (rule js_ushr_7)
  ultimately show ?thesis using v by linarith
qed

termination encodeVarint_loop
proof (relation "measure (\<lambda>(bytes, v). nat v)")
  show "wf (measure (\<lambda>(bytes, v). nat v))" by simp
next
  fix bytes :: "int list" and v :: int
  assume "127 < v"
  then have "nat (js_ushr v 7) < nat v" by (rule js_ushr_7_less)
  then show "((bytes @ [js_or (js_and v 0x7f) 0x80], js_ushr v 7), (bytes, v))
      \<in> measure (\<lambda>(bytes, v). nat v)"
    by simp
qed

declare encodeVarint_loop.simps [simp del]

definition encodeVarint :: "int \<Rightarrow> byte list" where
  "encodeVarint v = uint8Array (encodeVarint_loop [] v)"

subsection \<open>\<^verbatim>\<open>encodeField\<close> and its wrappers\<close>

text \<open>
  The argument \<open>data\<close> of \<^verbatim>\<open>encodeField\<close> is a number at wire type VARINT and a
  \<open>Uint8Array\<close> at wire type LENGTH_DELIMITED.
\<close>

datatype field_data = Num int | Bytes "byte list"

text \<open>
  An array in the place of a number is converted to a number through its string form,
  the elements in decimal joined by commas: the empty array is the empty string and the
  number 0, an array of one element is that element, and a longer array is not a number
  (\<open>NaN\<close>, here \<open>None\<close>).
\<close>

definition arrayToNumber :: "byte list \<Rightarrow> int option" where
  "arrayToNumber bs = (case bs of [] \<Rightarrow> Some 0 | [x] \<Rightarrow> Some (uint x) | _ \<Rightarrow> None)"

text \<open>
  \<^verbatim>\<open>encodeVarint\<close> on the number an array is converted to. On \<open>NaN\<close> the test
  \<^verbatim>\<open>value > 0x7f\<close> is false and \<^verbatim>\<open>value & 0x7f\<close> is 0, so the result is the single
  byte 0.
\<close>

definition encodeVarint_array :: "byte list \<Rightarrow> byte list" where
  "encodeVarint_array bs =
     (case arrayToNumber bs of Some v \<Rightarrow> encodeVarint v | None \<Rightarrow> uint8Array [0])"

text \<open>
  \<^verbatim>\<open>
  function encodeField(fieldNumber, wireType, data) {
    const tag = (fieldNumber << 3) | wireType;
    const tagBytes = encodeVarint(tag);
    if (wireType === WIRE_TYPE.VARINT) {
      return new Uint8Array([...tagBytes, ...encodeVarint(data)]);
    } else if (wireType === WIRE_TYPE.LENGTH_DELIMITED) {
      const length = encodeVarint(data.length);
      return new Uint8Array([...tagBytes, ...length, ...data]);
    }
    return tagBytes;
  }
  \<close>
  At wire type VARINT an array is encoded as the number it converts to. At wire type
  LENGTH_DELIMITED a number cannot be spread: the call raises a \<open>TypeError\<close>, which is the
  result \<open>None\<close>. No caller in the file makes either call.
\<close>

definition encodeField :: "int \<Rightarrow> int \<Rightarrow> field_data \<Rightarrow> byte list option" where
  "encodeField fieldNumber wireType data =
     (let tag = js_or (js_shl fieldNumber 3) wireType;
          tagBytes = encodeVarint tag
      in if wireType = VARINT then
           (case data of
              Num v \<Rightarrow> Some (tagBytes @ encodeVarint v)
            | Bytes bs \<Rightarrow> Some (tagBytes @ encodeVarint_array bs))
         else if wireType = LENGTH_DELIMITED then
           (case data of
              Bytes bs \<Rightarrow> Some (tagBytes @ encodeVarint (int (length bs)) @ bs)
            | Num _ \<Rightarrow> None)
         else Some tagBytes)"

definition encodeString :: "int \<Rightarrow> jsstring \<Rightarrow> byte list option" where
  "encodeString fieldNumber str =
     (let bytes = TextEncoder_encode str
      in encodeField fieldNumber LENGTH_DELIMITED (Bytes bytes))"

definition encodeBytes :: "int \<Rightarrow> byte list \<Rightarrow> byte list option" where
  "encodeBytes fieldNumber bytes = encodeField fieldNumber LENGTH_DELIMITED (Bytes bytes)"

definition encodeUint32 :: "int \<Rightarrow> int \<Rightarrow> byte list option" where
  "encodeUint32 fieldNumber v = encodeField fieldNumber VARINT (Num v)"

definition encodeBool :: "int \<Rightarrow> bool \<Rightarrow> byte list option" where
  "encodeBool fieldNumber v = encodeField fieldNumber VARINT (Num (if v then 1 else 0))"

subsection \<open>\<^verbatim>\<open>concatUint8Arrays\<close>\<close>

text \<open>
  \<^verbatim>\<open>result.set(arr, offset)\<close> overwrites \<open>length arr\<close> elements from \<open>offset\<close> on and
  raises a \<open>RangeError\<close> when they do not fit.
\<close>

definition typedArray_set :: "byte list \<Rightarrow> byte list \<Rightarrow> nat \<Rightarrow> byte list option" where
  "typedArray_set result arr offset =
     (if offset + length arr \<le> length result
      then Some (take offset result @ arr @ drop (offset + length arr) result)
      else None)"

fun concatUint8Arrays_loop :: "byte list \<Rightarrow> nat \<Rightarrow> byte list list \<Rightarrow> byte list option" where
  "concatUint8Arrays_loop result offset [] = Some result"
| "concatUint8Arrays_loop result offset (arr # arrays) = do {
     result' \<leftarrow> typedArray_set result arr offset;
     concatUint8Arrays_loop result' (offset + length arr) arrays
   }"

definition concatUint8Arrays :: "byte list list \<Rightarrow> byte list option" where
  "concatUint8Arrays arrays =
     (let totalLength = foldl (\<lambda>sum arr. sum + length arr) 0 arrays;
          result = replicate totalLength 0
      in concatUint8Arrays_loop result 0 arrays)"

text \<open>\<^verbatim>\<open>parts.push(e)\<close>, where evaluating \<open>e\<close> may fail.\<close>

definition push :: "'a list \<Rightarrow> 'a option \<Rightarrow> 'a list option" where
  "push parts e = do { x \<leftarrow> e; Some (parts @ [x]) }"

section \<open>Meshtastic message builders\<close>

text \<open>
  The configuration objects. A property that may be \<^verbatim>\<open>undefined\<close> is an option; the
  numbers are integers, the flags booleans, the key a \<open>Uint8Array\<close>.
\<close>

record ChannelSettings =
  channelNum :: "int option"
  psk :: "byte list option"
  name :: "jsstring option"
  uplinkEnabled :: "bool option"
  downlinkEnabled :: "bool option"

record Channel =
  index :: "int option"
  settings :: "ChannelSettings option"
  role :: "int option"

record LoRaConfig =
  region :: "int option"
  modemPreset :: "int option"
  hopLimit :: "int option"
  txEnabled :: "bool option"
  txPower :: "int option"

record ChannelSetConfig =
  lora :: "LoRaConfig option"
  channels :: "Channel list option"

text \<open>
  \<^verbatim>\<open>buildChannelSettings\<close>: \<open>channel_num\<close> (field 1) only when it is defined and
  positive, \<open>psk\<close> (2) when present, \<open>name\<close> (3) when it is a non-empty string,
  \<open>uplink_enabled\<close> (5) and \<open>downlink_enabled\<close> (6) when defined.
\<close>

definition buildChannelSettings :: "ChannelSettings \<Rightarrow> byte list option" where
  "buildChannelSettings s = do {
     let parts = [];
     parts \<leftarrow> (case channelNum s of
                 Some n \<Rightarrow> if n > 0 then push parts (encodeUint32 1 n) else Some parts
               | None \<Rightarrow> Some parts);
     parts \<leftarrow> (case psk s of
                 Some k \<Rightarrow> push parts (encodeBytes 2 k)
               | None \<Rightarrow> Some parts);
     parts \<leftarrow> (case name s of
                 Some str \<Rightarrow> if str \<noteq> [] then push parts (encodeString 3 str) else Some parts
               | None \<Rightarrow> Some parts);
     parts \<leftarrow> (case uplinkEnabled s of
                 Some b \<Rightarrow> push parts (encodeBool 5 b)
               | None \<Rightarrow> Some parts);
     parts \<leftarrow> (case downlinkEnabled s of
                 Some b \<Rightarrow> push parts (encodeBool 6 b)
               | None \<Rightarrow> Some parts);
     concatUint8Arrays parts
   }"

definition buildChannel :: "Channel \<Rightarrow> byte list option" where
  "buildChannel channel = do {
     let parts = [];
     parts \<leftarrow> (case index channel of
                 Some i \<Rightarrow> push parts (encodeUint32 1 i)
               | None \<Rightarrow> Some parts);
     parts \<leftarrow> (case settings channel of
                 Some cs \<Rightarrow> do {
                   bytes \<leftarrow> buildChannelSettings cs;
                   push parts (encodeField 2 LENGTH_DELIMITED (Bytes bytes))
                 }
               | None \<Rightarrow> Some parts);
     parts \<leftarrow> (case role channel of
                 Some r \<Rightarrow> push parts (encodeUint32 3 r)
               | None \<Rightarrow> Some parts);
     concatUint8Arrays parts
   }"

definition buildLoRaConfig :: "LoRaConfig \<Rightarrow> byte list option" where
  "buildLoRaConfig l = do {
     let parts = [];
     parts \<leftarrow> (case region l of
                 Some v \<Rightarrow> push parts (encodeUint32 3 v)
               | None \<Rightarrow> Some parts);
     parts \<leftarrow> (case modemPreset l of
                 Some v \<Rightarrow> push parts (encodeUint32 4 v)
               | None \<Rightarrow> Some parts);
     parts \<leftarrow> (case hopLimit l of
                 Some v \<Rightarrow> push parts (encodeUint32 7 v)
               | None \<Rightarrow> Some parts);
     parts \<leftarrow> (case txEnabled l of
                 Some b \<Rightarrow> push parts (encodeBool 11 b)
               | None \<Rightarrow> Some parts);
     parts \<leftarrow> (case txPower l of
                 Some v \<Rightarrow> push parts (encodeUint32 12 v)
               | None \<Rightarrow> Some parts);
     concatUint8Arrays parts
   }"

text \<open>The \<^verbatim>\<open>forEach\<close> of \<^verbatim>\<open>buildChannelSet\<close>: one push per channel, in array order.\<close>

fun buildChannelSet_forEach :: "byte list list \<Rightarrow> Channel list \<Rightarrow> byte list list option" where
  "buildChannelSet_forEach parts [] = Some parts"
| "buildChannelSet_forEach parts (channel # rest) = do {
     channelBytes \<leftarrow> buildChannel channel;
     parts' \<leftarrow> push parts (encodeField 1 LENGTH_DELIMITED (Bytes channelBytes));
     buildChannelSet_forEach parts' rest
   }"

definition buildChannelSet :: "ChannelSetConfig \<Rightarrow> byte list option" where
  "buildChannelSet config = do {
     let parts = [];
     parts \<leftarrow> (case channels config of
                 Some cs \<Rightarrow> buildChannelSet_forEach parts cs
               | None \<Rightarrow> Some parts);
     parts \<leftarrow> (case lora config of
                 Some l \<Rightarrow> do {
                   loraBytes \<leftarrow> buildLoRaConfig l;
                   push parts (encodeField 2 LENGTH_DELIMITED (Bytes loraBytes))
                 }
               | None \<Rightarrow> Some parts);
     concatUint8Arrays parts
   }"

section \<open>Encoding utilities\<close>

subsection \<open>\<^verbatim>\<open>btoa\<close> and \<^verbatim>\<open>atob\<close>\<close>

text \<open>
  Modelled from the spec: the standard base64 encode and decode primitives, which the
  framer takes from its platform (\<^verbatim>\<open>btoa\<close>, \<^verbatim>\<open>atob\<close>), are not repository code. They
  work on strings of code units below 256 (\<^verbatim>\<open>btoa\<close> raises an error on any other
  string, which the type excludes). \<^verbatim>\<open>btoa\<close> writes three bytes
  as four characters of the standard alphabet and pads the last group with \<open>=\<close>. The
  alphabet is \<open>A\<close> to \<open>Z\<close> (codes 65 to 90) for the values 0 to 25, \<open>a\<close> to \<open>z\<close>
  (97 to 122) for 26 to 51, \<open>0\<close> to \<open>9\<close> (48 to 57) for 52 to 61, then \<open>+\<close> and \<open>/\<close>.
\<close>

definition base64_char :: "nat \<Rightarrow> char" where
  "base64_char i =
     (if i < 26 then char_of (65 + i)
      else if i < 52 then char_of (71 + i)
      else if i < 62 then char_of (i - 4)
      else if i = 62 then CHR ''+''
      else CHR ''/'')"

fun btoa :: "string \<Rightarrow> string" where
  "btoa (a # b # c # rest) =
     (let x = of_char a :: nat; y = of_char b :: nat; z = of_char c :: nat
      in [base64_char (x div 4), base64_char (x mod 4 * 16 + y div 16),
          base64_char (y mod 16 * 4 + z div 64), base64_char (z mod 64)] @ btoa rest)"
| "btoa [a, b] =
     (let x = of_char a :: nat; y = of_char b :: nat
      in [base64_char (x div 4), base64_char (x mod 4 * 16 + y div 16),
          base64_char (y mod 16 * 4), CHR ''=''])"
| "btoa [a] =
     (let x = of_char a :: nat
      in [base64_char (x div 4), base64_char (x mod 4 * 16), CHR ''='', CHR ''=''])"
| "btoa [] = []"

text \<open>
  \<^verbatim>\<open>atob\<close> removes ASCII whitespace, then one or two trailing \<open>=\<close> of a string whose
  length is a multiple of four, fails (\<open>None\<close>, an \<open>InvalidCharacterError\<close>) when the
  length that is left is 1 modulo 4 or a character is outside the alphabet, and decodes
  six bits per character, dropping the bits of an incomplete last byte.
\<close>

definition is_ascii_whitespace :: "char \<Rightarrow> bool" where
  "is_ascii_whitespace c = (of_char c \<in> {9, 10, 12, 13, 32 :: nat})"

definition base64_index :: "char \<Rightarrow> nat option" where
  "base64_index c =
     (let n = of_char c :: nat
      in if 65 \<le> n \<and> n \<le> 90 then Some (n - 65)
         else if 97 \<le> n \<and> n \<le> 122 then Some (n - 71)
         else if 48 \<le> n \<and> n \<le> 57 then Some (n + 4)
         else if n = 43 then Some 62
         else if n = 47 then Some 63
         else None)"

definition strip_padding :: "string \<Rightarrow> string" where
  "strip_padding d =
     (if length d mod 4 = 0 \<and> d \<noteq> [] then
        (if last d = CHR ''='' then
           (if butlast d \<noteq> [] \<and> last (butlast d) = CHR ''='' then butlast (butlast d)
            else butlast d)
         else d)
      else d)"

fun base64_decode :: "nat list \<Rightarrow> string" where
  "base64_decode (p # q # r # s # rest) =
     [char_of (p * 4 + q div 16), char_of (q mod 16 * 16 + r div 4), char_of (r mod 4 * 64 + s)]
       @ base64_decode rest"
| "base64_decode [p, q, r] = [char_of (p * 4 + q div 16), char_of (q mod 16 * 16 + r div 4)]"
| "base64_decode [p, q] = [char_of (p * 4 + q div 16)]"
| "base64_decode [p] = []"
| "base64_decode [] = []"

definition atob :: "string \<Rightarrow> string option" where
  "atob data =
     (let d = strip_padding (filter (\<lambda>c. \<not> is_ascii_whitespace c) data)
      in if length d mod 4 = 1 then None
         else map_option base64_decode (those (map base64_index d)))"

subsection \<open>\<^verbatim>\<open>uint8ArrayToBase64\<close> and \<^verbatim>\<open>uint8ArrayToBase64URL\<close>\<close>

definition String_fromCharCode :: "byte \<Rightarrow> char" where
  "String_fromCharCode b = char_of (unat b)"

function uint8ArrayToBase64_loop :: "byte list \<Rightarrow> string \<Rightarrow> nat \<Rightarrow> string" where
  "uint8ArrayToBase64_loop bytes binary i =
     (if i < length bytes
      then uint8ArrayToBase64_loop bytes (binary @ [String_fromCharCode (bytes ! i)]) (Suc i)
      else binary)"
  by pat_completeness auto
termination
  by (relation "measure (\<lambda>(bytes, binary, i). length bytes - i)") auto

declare uint8ArrayToBase64_loop.simps [simp del]

definition uint8ArrayToBase64 :: "byte list \<Rightarrow> string" where
  "uint8ArrayToBase64 bytes = btoa (uint8ArrayToBase64_loop bytes [] 0)"

text \<open>\<^verbatim>\<open>s.replace(/c/g, r)\<close> for a single character \<open>c\<close>.\<close>

definition replace_all :: "char \<Rightarrow> string \<Rightarrow> string \<Rightarrow> string" where
  "replace_all c r s = concat (map (\<lambda>x. if x = c then r else [x]) s)"

definition uint8ArrayToBase64URL :: "byte list \<Rightarrow> string" where
  "uint8ArrayToBase64URL bytes =
     replace_all CHR ''='' []
       (replace_all CHR ''/'' ''_''
         (replace_all CHR ''+'' ''-'' (uint8ArrayToBase64 bytes)))"

subsection \<open>\<^verbatim>\<open>CryptoUtils.base64ToUint8Array\<close>\<close>

text \<open>
  \<^verbatim>\<open>
  base64ToUint8Array(base64) {
    const binary = atob(base64);
    const bytes = new Uint8Array(binary.length);
    for (let i = 0; i < binary.length; i++) {
      bytes[i] = binary.charCodeAt(i);
    }
    return bytes;
  }
  \<close>
\<close>

definition charCodeAt :: "string \<Rightarrow> nat \<Rightarrow> int" where
  "charCodeAt s i = int (of_char (s ! i))"

function base64ToUint8Array_loop :: "string \<Rightarrow> byte list \<Rightarrow> nat \<Rightarrow> byte list" where
  "base64ToUint8Array_loop binary bytes i =
     (if i < length binary
      then base64ToUint8Array_loop binary (bytes[i := word_of_int (charCodeAt binary i)]) (Suc i)
      else bytes)"
  by pat_completeness auto
termination
  by (relation "measure (\<lambda>(binary, bytes, i). length binary - i)") auto

declare base64ToUint8Array_loop.simps [simp del]

definition base64ToUint8Array :: "string \<Rightarrow> byte list option" where
  "base64ToUint8Array base64 = do {
     binary \<leftarrow> atob base64;
     let bytes = replicate (length binary) 0;
     Some (base64ToUint8Array_loop binary bytes 0)
   }"

subsection \<open>\<^verbatim>\<open>fromBase64URL\<close>\<close>

text \<open>
  Modelled from the spec: \<^verbatim>\<open>fromBase64URL\<close>, the decoding half of the framer, is not in
  the source. The specification gives it as: reinstate the padding (derived from the
  length modulo 4), reverse the character substitution, decode standard base64; a length
  of 1 modulo 4 is invalid. The last step is the source's \<^verbatim>\<open>base64ToUint8Array\<close>.
\<close>

definition fromBase64URL :: "string \<Rightarrow> byte list option" where
  "fromBase64URL s =
     (if length s mod 4 = 1 then None
      else
        (let padded = s @ replicate ((4 - length s mod 4) mod 4) CHR ''='';
             standard = map (\<lambda>c. if c = CHR ''-'' then CHR ''+''
                                  else if c = CHR ''_'' then CHR ''/'' else c) padded
         in base64ToUint8Array standard))"

section \<open>URL generation\<close>

definition HYPHAE_MESH_CONFIG_lora :: LoRaConfig where
  "HYPHAE_MESH_CONFIG_lora =
     \<lparr>region = Some 1, modemPreset = Some 3, hopLimit = Some 6,
      txEnabled = Some True, txPower = Some 30\<rparr>"

definition HYPHAE_MESH_CONFIG_channel :: ChannelSettings where
  "HYPHAE_MESH_CONFIG_channel =
     \<lparr>channelNum = None, psk = Some [1], name = Some (js_literal []),
      uplinkEnabled = Some True, downlinkEnabled = Some True\<rparr>"

definition generateMeshtasticURL :: "ChannelSetConfig \<Rightarrow> string option" where
  "generateMeshtasticURL config = do {
     protoBytes \<leftarrow> buildChannelSet config;
     let base64 = uint8ArrayToBase64URL protoBytes;
     Some (''https://meshtastic.org/e/#'' @ base64)
   }"

definition generateHyphaeNetworkURL :: "string option" where
  "generateHyphaeNetworkURL =
     (let config =
        \<lparr>lora = Some HYPHAE_MESH_CONFIG_lora,
         channels = Some [\<lparr>index = Some 0,
                           settings = Some
                             \<lparr>channelNum = None,
                              psk = psk HYPHAE_MESH_CONFIG_channel,
                              name = name HYPHAE_MESH_CONFIG_channel,
                              uplinkEnabled = uplinkEnabled HYPHAE_MESH_CONFIG_channel,
                              downlinkEnabled = downlinkEnabled HYPHAE_MESH_CONFIG_channel\<rparr>,
                           role = Some 1\<rparr>]\<rparr>
      in generateMeshtasticURL config)"

subsection \<open>Private channels\<close>

text \<open>
  Modelled from the spec: the secure random generator producing N random bytes, which the
  source takes from its platform (\<^verbatim>\<open>crypto.getRandomValues(arr)\<close>), is not repository
  code. It overwrites every element of \<open>arr\<close> with a random value. The values drawn are a
  parameter of the model: \<open>rnd i\<close> is the value drawn for element \<open>i\<close>.
\<close>

definition getRandomValues :: "(nat \<Rightarrow> byte) \<Rightarrow> byte list \<Rightarrow> byte list" where
  "getRandomValues rnd arr = map rnd [0..<length arr]"

definition generateRandomPSK :: "(nat \<Rightarrow> byte) \<Rightarrow> byte list" where
  "generateRandomPSK rnd = getRandomValues rnd (replicate 32 0)"

text \<open>
  The object \<open>config\<close> that \<^verbatim>\<open>generatePrivateChannelURL\<close> builds;
  \<^verbatim>\<open>channelName || 'Private'\<close> takes the default for an omitted and for an empty name.
\<close>

definition privateChannelConfig :: "jsstring option \<Rightarrow> byte list \<Rightarrow> ChannelSetConfig" where
  "privateChannelConfig channelName key =
     \<lparr>lora = Some HYPHAE_MESH_CONFIG_lora,
      channels = Some [\<lparr>index = Some 0,
                        settings = Some
                          \<lparr>channelNum = None,
                           psk = Some key,
                           name = Some (case channelName of
                                          None \<Rightarrow> js_literal ''Private''
                                        | Some n \<Rightarrow> if n = [] then js_literal ''Private'' else n),
                           uplinkEnabled = Some False,
                           downlinkEnabled = Some False\<rparr>,
                        role = Some 1\<rparr>]\<rparr>"

text \<open>
  The object that \<^verbatim>\<open>generatePrivateChannelURL\<close> returns. Its field \<open>psk\<close> is named
  \<open>psk_base64\<close> here, \<open>psk\<close> being the key of the channel settings.
\<close>

record PrivateChannelURL =
  url :: string
  psk_base64 :: string

definition generatePrivateChannelURL ::
    "(nat \<Rightarrow> byte) \<Rightarrow> jsstring option \<Rightarrow> PrivateChannelURL option" where
  "generatePrivateChannelURL rnd channelName = do {
     let key = generateRandomPSK rnd;
     let config = privateChannelConfig channelName key;
     u \<leftarrow> generateMeshtasticURL config;
     Some \<lparr>url = u, psk_base64 = uint8ArrayToBase64 key\<rparr>
   }"

section \<open>The varint of the specification\<close>

text \<open>
  The base-128 varint of the protocol, as the specification words it: groups of seven
  bits, least significant group first, the high bit set on every byte but the last.
\<close>

fun varint :: "nat \<Rightarrow> byte list" where
  "varint n = (if n < 128 then [of_nat n] else of_nat (n mod 128 + 128) # varint (n div 128))"

declare varint.simps [simp del]

text \<open>The number a sequence of groups stands for.\<close>

fun varint_value :: "byte list \<Rightarrow> nat" where
  "varint_value [] = 0"
| "varint_value (b # bs) = unat b mod 128 + 128 * varint_value bs"

text \<open>
  The field encoders as the specification words them, over the natural numbers and the
  varint of the specification: the tag is \<open>(fieldNumber << 3) | wireType\<close>, and a
  length-delimited field is the tag, the varint of the payload's length and the payload.
\<close>

definition encodeTag :: "nat \<Rightarrow> nat \<Rightarrow> byte list" where
  "encodeTag fieldNumber wireType = varint (push_bit 3 fieldNumber OR wireType)"

definition encodeLengthDelimitedField :: "nat \<Rightarrow> byte list \<Rightarrow> byte list" where
  "encodeLengthDelimitedField fieldNumber payload =
     encodeTag fieldNumber 2 @ varint (length payload) @ payload"

section \<open>The bytes of each message\<close>

text \<open>What each builder returns.\<close>

definition varintField :: "byte \<Rightarrow> int \<Rightarrow> byte list" where
  "varintField tag v = tag # encodeVarint v"

definition lengthDelimitedField :: "byte \<Rightarrow> byte list \<Rightarrow> byte list" where
  "lengthDelimitedField tag payload = tag # encodeVarint (int (length payload)) @ payload"

definition channelSettingsBytes :: "ChannelSettings \<Rightarrow> byte list" where
  "channelSettingsBytes s =
     (case channelNum s of Some n \<Rightarrow> if n > 0 then varintField 0x08 n else [] | None \<Rightarrow> [])
     @ (case psk s of Some k \<Rightarrow> lengthDelimitedField 0x12 k | None \<Rightarrow> [])
     @ (case name s of
          Some str \<Rightarrow> if str \<noteq> [] then lengthDelimitedField 0x1A (TextEncoder_encode str) else []
        | None \<Rightarrow> [])
     @ (case uplinkEnabled s of Some b \<Rightarrow> varintField 0x28 (if b then 1 else 0) | None \<Rightarrow> [])
     @ (case downlinkEnabled s of Some b \<Rightarrow> varintField 0x30 (if b then 1 else 0) | None \<Rightarrow> [])"

definition channelBytes :: "Channel \<Rightarrow> byte list" where
  "channelBytes c =
     (case index c of Some i \<Rightarrow> varintField 0x08 i | None \<Rightarrow> [])
     @ (case settings c of
          Some cs \<Rightarrow> lengthDelimitedField 0x12 (channelSettingsBytes cs)
        | None \<Rightarrow> [])
     @ (case role c of Some r \<Rightarrow> varintField 0x18 r | None \<Rightarrow> [])"

definition loRaConfigBytes :: "LoRaConfig \<Rightarrow> byte list" where
  "loRaConfigBytes l =
     (case region l of Some v \<Rightarrow> varintField 0x18 v | None \<Rightarrow> [])
     @ (case modemPreset l of Some v \<Rightarrow> varintField 0x20 v | None \<Rightarrow> [])
     @ (case hopLimit l of Some v \<Rightarrow> varintField 0x38 v | None \<Rightarrow> [])
     @ (case txEnabled l of Some b \<Rightarrow> varintField 0x58 (if b then 1 else 0) | None \<Rightarrow> [])
     @ (case txPower l of Some v \<Rightarrow> varintField 0x60 v | None \<Rightarrow> [])"

section \<open>The characters of the base64 framer\<close>

text \<open>The six-bit groups that \<^verbatim>\<open>btoa\<close> writes, before they are turned into characters.\<close>

fun sextets :: "string \<Rightarrow> nat list" where
  "sextets (a # b # c # rest) =
     (let x = of_char a :: nat; y = of_char b :: nat; z = of_char c :: nat
      in [x div 4, x mod 4 * 16 + y div 16, y mod 16 * 4 + z div 64, z mod 64] @ sextets rest)"
| "sextets [a, b] =
     (let x = of_char a :: nat; y = of_char b :: nat
      in [x div 4, x mod 4 * 16 + y div 16, y mod 16 * 4])"
| "sextets [a] = (let x = of_char a :: nat in [x div 4, x mod 4 * 16])"
| "sextets [] = []"

definition padding :: "string \<Rightarrow> string" where
  "padding bin = replicate ((3 - length bin mod 3) mod 3) CHR ''=''"

definition base64url_char :: "char \<Rightarrow> bool" where
  "base64url_char c =
     (let n = of_char c :: nat
      in (65 \<le> n \<and> n \<le> 90) \<or> (97 \<le> n \<and> n \<le> 122) \<or> (48 \<le> n \<and> n \<le> 57)
         \<or> n = 45 \<or> n = 95)"

definition url_subst :: "char \<Rightarrow> char" where
  "url_subst c = (if c = CHR ''+'' then CHR ''-'' else if c = CHR ''/'' then CHR ''_'' else c)"

definition url_unsubst :: "char \<Rightarrow> char" where
  "url_unsubst c = (if c = CHR ''-'' then CHR ''+'' else if c = CHR ''_'' then CHR ''/'' else c)"

section \<open>Properties of the varint encoder\<close>

lemma ToInt32_mod128: "ToInt32 v mod 128 = v mod 128"
proof -
  have d: "(128::int) dvd 2 ^ 32" by simp
  have "(v mod 2 ^ 32 - 2 ^ 32) mod 128 = (v mod 2 ^ 32) mod 128"
    using d by (metis mod_diff_right_eq dvd_imp_mod_0 diff_zero mod_mod_trivial)
  moreover have "(v mod 2 ^ 32) mod 128 = v mod 128"
    using d by (rule mod_mod_cancel)
  ultimately show ?thesis by (simp add: ToInt32_def Let_def)
qed

lemma ToInt32_small: "0 \<le> v \<Longrightarrow> v < 2 ^ 31 \<Longrightarrow> ToInt32 v = v"
  by (simp add: ToInt32_def Let_def)

lemma and_127: "(x::int) AND 127 = x mod 128"
proof -
  have "x AND mask 7 = take_bit 7 x" by (simp add: take_bit_eq_mask)
  then show ?thesis by (simp add: take_bit_eq_mod mask_eq_exp_minus_1)
qed

lemma js_and_7f: "js_and v 0x7f = v mod 128"
  by (simp add: js_and_def ToInt32_small and_127 ToInt32_mod128)

lemma or_128:
  assumes "0 \<le> x" and "x < 128"
  shows "(x::int) OR 128 = x + 128"
proof -
  have "\<not> bit x 7" using assms by (simp add: bit_iff_odd)
  then have "x AND 128 = 0" using and_exp_eq_0_iff_not_bit [of x 7] by simp
  then show ?thesis using disjunctive_add_eq_or [of x 128] by simp
qed

lemma js_or_80: "js_or (v mod 128) 0x80 = v mod 128 + 128"
  by (simp add: js_or_def ToInt32_small or_128)

lemma encodeVarint_loop_acc: "encodeVarint_loop bytes v = bytes @ encodeVarint_loop [] v"
proof (induction "nat v" arbitrary: v bytes rule: less_induct)
  case less
  show ?case
  proof (cases "v > 0x7f")
    case True
    let ?b = "js_or (js_and v 0x7f) 0x80" and ?w = "js_ushr v 7"
    have lt: "nat ?w < nat v" using True by (intro js_ushr_7_less) simp
    have "encodeVarint_loop bytes v = encodeVarint_loop (bytes @ [?b]) ?w"
      using True by (subst encodeVarint_loop.simps) simp
    also have "\<dots> = (bytes @ [?b]) @ encodeVarint_loop [] ?w"
      using less.hyps [OF lt] .
    also have "\<dots> = bytes @ ([?b] @ encodeVarint_loop [] ?w)" by simp
    also have "[?b] @ encodeVarint_loop [] ?w = encodeVarint_loop ([] @ [?b]) ?w"
      using less.hyps [OF lt, of "[?b]"] by simp
    also have "\<dots> = encodeVarint_loop [] v"
      using True by (subst (2) encodeVarint_loop.simps) simp
    finally show ?thesis .
  next
    case False
    then show ?thesis by (simp add: encodeVarint_loop.simps)
  qed
qed

lemma encodeVarint_step:
  assumes "v > 127"
  shows "encodeVarint v = word_of_int (v mod 128 + 128) # encodeVarint ((v mod 2 ^ 32) div 128)"
proof -
  have "encodeVarint_loop [] v = encodeVarint_loop [v mod 128 + 128] ((v mod 2 ^ 32) div 128)"
    using assms by (subst encodeVarint_loop.simps) (simp add: js_and_7f js_or_80 js_ushr_7)
  also have "\<dots> = [v mod 128 + 128] @ encodeVarint_loop [] ((v mod 2 ^ 32) div 128)"
    by (rule encodeVarint_loop_acc)
  finally show ?thesis by (simp add: encodeVarint_def uint8Array_def)
qed

lemma encodeVarint_last: "v \<le> 127 \<Longrightarrow> encodeVarint v = [word_of_int (v mod 128)]"
  by (simp add: encodeVarint_def uint8Array_def encodeVarint_loop.simps js_and_7f)

lemma varint_step:
  assumes "127 < v"
  shows "varint (nat v) = word_of_int (v mod 128 + 128) # varint (nat (v div 128))"
proof -
  have n: "\<not> nat v < 128" "nat v div 128 = nat (v div 128)"
      "int (nat v mod 128 + 128) = v mod 128 + 128"
    using assms by (simp_all add: nat_div_distrib zmod_int)
  have "varint (nat v) = of_nat (nat v mod 128 + 128) # varint (nat v div 128)"
    using n(1) by (subst varint.simps) simp
  moreover have "(of_nat (nat v mod 128 + 128) :: byte) = word_of_int (int (nat v mod 128 + 128))"
    by (simp only: of_int_of_nat_eq)
  ultimately show ?thesis by (simp only: n)
qed

lemma varint_value_varint: "varint_value (varint n) = n"
proof (induction n rule: varint.induct)
  case (1 n)
  show ?case
  proof (cases "n < 128")
    case True
    then show ?thesis by (subst varint.simps) (simp add: unat_of_nat)
  next
    case False
    have "unat (of_nat (n mod 128 + 128) :: byte) = n mod 128 + 128"
      by (rule of_nat_inverse [OF refl]) simp
    then have "unat (of_nat (n mod 128 + 128) :: byte) mod 128 = n mod 128"
      by simp
    moreover have "varint_value (varint (n div 128)) = n div 128"
      using False 1 by simp
    moreover have "varint n = of_nat (n mod 128 + 128) # varint (n div 128)"
      using False by (subst varint.simps) simp
    ultimately show ?thesis by (simp only: varint_value.simps) simp
  qed
qed

lemma varint_not_Nil: "varint n \<noteq> []"
  by (subst varint.simps) simp

lemma varint_last: "unat (last (varint n)) < 128"
proof (induction n rule: varint.induct)
  case (1 n)
  show ?case
  proof (cases "n < 128")
    case True
    then show ?thesis by (subst varint.simps) (simp add: unat_of_nat)
  next
    case False
    then show ?thesis using 1 by (subst varint.simps) (simp add: varint_not_Nil)
  qed
qed

lemma varint_continuation: "list_all (\<lambda>b. 128 \<le> unat b) (butlast (varint n))"
proof (induction n rule: varint.induct)
  case (1 n)
  show ?case
  proof (cases "n < 128")
    case True
    then show ?thesis by (subst varint.simps) simp
  next
    case False
    have "unat (of_nat (n mod 128 + 128) :: byte) = n mod 128 + 128"
      by (rule of_nat_inverse [OF refl]) simp
    then have "128 \<le> unat (of_nat (n mod 128 + 128) :: byte)" by simp
    moreover have "list_all (\<lambda>b. 128 \<le> unat b) (butlast (varint (n div 128)))"
      using False 1 by simp
    moreover have "varint n = of_nat (n mod 128 + 128) # varint (n div 128)"
      using False by (subst varint.simps) simp
    ultimately show ?thesis by (simp add: varint_not_Nil)
  qed
qed

lemma encodeVarint_eq_varint:
  assumes "0 \<le> v" and "v < 2 ^ 32"
  shows "encodeVarint v = varint (nat v)"
  using assms
proof (induction "nat v" arbitrary: v rule: less_induct)
  case less
  show ?case
  proof (cases "v > 127")
    case True
    define w where "w = v div 128"
    have w: "0 \<le> w" "w < 2 ^ 32" "nat w < nat v" "v mod 2 ^ 32 = v"
      using True less.prems by (auto simp: w_def)
    have "encodeVarint v = word_of_int (v mod 128 + 128) # encodeVarint w"
      using True w by (simp add: encodeVarint_step w_def)
    also have "encodeVarint w = varint (nat w)"
      using less.hyps [of w] w by simp
    also have "word_of_int (v mod 128 + 128) # varint (nat w) = varint (nat v)"
      using True by (simp add: varint_step w_def)
    finally show ?thesis .
  next
    case False
    then show ?thesis using less.prems by (simp add: encodeVarint_last varint.simps)
  qed
qed

text \<open>
  C1 (as amended). For every integer from 0 to \<open>2^32 - 1\<close>, \<^verbatim>\<open>encodeVarint\<close> returns
  the base-128 varint of the value: the groups of seven bits give the value back, least
  significant group first, the last byte has its high bit clear and every byte before it
  has its high bit set.
\<close>

theorem encodeVarint_refines_varint:
  assumes "0 \<le> v" and "v < 2 ^ 32"
  shows "encodeVarint v = varint (nat v)
    \<and> varint_value (encodeVarint v) = nat v
    \<and> unat (last (encodeVarint v)) < 128
    \<and> list_all (\<lambda>b. 128 \<le> unat b) (butlast (encodeVarint v))"
  using assms
  by (simp add: encodeVarint_eq_varint varint_value_varint varint_last varint_continuation)

text \<open>The value 300 is encoded as \<open>AC 02\<close>.\<close>

theorem encodeVarint_refines_varint_witness:
  "encodeVarint 300 = [0xAC, 0x02]"
  using encodeVarint_refines_varint [of 300] by (simp add: varint.simps)

text \<open>
  Beyond 32 bits the encoder and the varint differ: \<^verbatim>\<open>value >>>= 7\<close> first reduces the
  value modulo \<open>2^32\<close>, so \<open>2^32\<close> is encoded as \<open>80 00\<close>, while its varint is
  \<open>80 80 80 80 10\<close>.
\<close>

theorem encodeVarint_2_32_counterexample:
  "encodeVarint (2 ^ 32) = [0x80, 0x00] \<and> varint (2 ^ 32) = [0x80, 0x80, 0x80, 0x80, 0x10]
   \<and> encodeVarint (2 ^ 32) \<noteq> varint (nat (2 ^ 32))"
  by (simp add: encodeVarint_step encodeVarint_last varint.simps)

lemma encodeUint32_eq:
  "encodeUint32 f v = Some (encodeVarint (js_or (js_shl f 3) 0) @ encodeVarint v)"
  by (simp add: encodeUint32_def encodeField_def VARINT_def)

text \<open>
  C2 (as amended). For every negative integer \<^verbatim>\<open>encodeVarint\<close> returns a result and
  raises no error: the loop is not entered and the result is the single byte
  \<^verbatim>\<open>value & 0x7f\<close>, the value modulo 128. A negative field value therefore goes through
  \<^verbatim>\<open>encodeUint32\<close> without an error as well.
\<close>

theorem encodeVarint_negative:
  assumes "v < 0"
  shows "encodeVarint v = [word_of_int (js_and v 0x7f)]
    \<and> js_and v 0x7f = v mod 128
    \<and> encodeUint32 f v \<noteq> None"
  using assms by (simp add: encodeVarint_last encodeUint32_eq js_and_7f)

text \<open>The value \<open>-1\<close> is encoded as \<open>7F\<close>, as 127 is; as a field value it raises no error.\<close>

theorem encodeVarint_negative_witness:
  "encodeVarint (- 1) = [0x7F]"
  using encodeVarint_negative [of "- 1"] by simp

theorem encodeVarint_negative_counterexample:
  "encodeVarint (- 1) = [0x7F] \<and> encodeVarint (- 1) = encodeVarint 127
   \<and> encodeUint32 12 (- 1) = Some [0x60, 0x7F]"
  by (simp add: encodeVarint_last encodeUint32_eq js_or_def js_shl_def ToInt32_def ToUint32_def)

section \<open>Properties of the field encoder and the builders\<close>

lemma foldl_length_sum:
  "foldl (\<lambda>sum arr. sum + length arr) k arrays = k + length (concat arrays)"
  by (induction arrays arbitrary: k) simp_all

lemma concatUint8Arrays_loop_eq:
  "offset + length (concat arrays) \<le> length result \<Longrightarrow>
   concatUint8Arrays_loop result offset arrays =
     Some (take offset result @ concat arrays @ drop (offset + length (concat arrays)) result)"
proof (induction arrays arbitrary: result offset)
  case Nil
  then show ?case by simp
next
  case (Cons arr arrays)
  let ?r = "take offset result @ arr @ drop (offset + length arr) result"
  have fit: "offset + length arr \<le> length result" using Cons.prems by simp
  have len: "length ?r = length result" using fit by simp
  have "concatUint8Arrays_loop result offset (arr # arrays) =
      concatUint8Arrays_loop ?r (offset + length arr) arrays"
    using fit by (simp add: typedArray_set_def)
  also have "\<dots> = Some (take (offset + length arr) ?r @ concat arrays
      @ drop (offset + length arr + length (concat arrays)) ?r)"
    using Cons.prems len by (intro Cons.IH) simp
  also have "take (offset + length arr) ?r = take offset result @ arr"
    using fit by simp
  also have "drop (offset + length arr + length (concat arrays)) ?r
      = drop (offset + length (concat (arr # arrays))) result"
    using fit by (simp add: ac_simps)
  finally show ?case by simp
qed

lemma concatUint8Arrays_eq [simp]: "concatUint8Arrays arrays = Some (concat arrays)"
  by (simp add: concatUint8Arrays_def Let_def foldl_length_sum concatUint8Arrays_loop_eq)

lemma push_Some [simp]: "push parts (Some x) = Some (parts @ [x])"
  by (simp add: push_def)

text \<open>The tag of a field, with the operators of the source.\<close>

lemma encodeField_VARINT:
  "encodeField f VARINT (Num v) = Some (encodeVarint (js_or (js_shl f 3) VARINT) @ encodeVarint v)"
  by (simp add: encodeField_def)

lemma encodeField_LENGTH_DELIMITED:
  "encodeField f LENGTH_DELIMITED (Bytes bs) =
     Some (encodeVarint (js_or (js_shl f 3) LENGTH_DELIMITED) @ encodeVarint (int (length bs)) @ bs)"
  by (simp add: encodeField_def VARINT_def LENGTH_DELIMITED_def)

lemma tag_small:
  assumes "0 \<le> f" "f < 2 ^ 28" "0 \<le> w" "w < 8"
  shows "js_or (js_shl f 3) w = 8 * f + w"
proof -
  have w: "take_bit 3 w = w" using assms by (simp add: take_bit_int_eq_self)
  have "push_bit 3 f AND take_bit 3 w = 0"
    by (rule bit_eqI) (auto simp: bit_simps)
  then have "8 * f AND w = 0" using w by (simp add: push_bit_eq_mult mult.commute)
  then have "8 * f + w = 8 * f OR w" by (rule disjunctive_add_eq_or)
  moreover have "js_shl f 3 = 8 * f"
    using assms by (simp add: js_shl_def ToUint32_def ToInt32_small push_bit_eq_mult)
  moreover have "ToInt32 (8 * f) = 8 * f" "ToInt32 w = w"
    using assms by (simp_all add: ToInt32_small)
  ultimately show ?thesis by (simp add: js_or_def)
qed

lemma encodeVarint_small: "0 \<le> v \<Longrightarrow> v < 128 \<Longrightarrow> encodeVarint v = [word_of_int v]"
  by (simp add: encodeVarint_last)

lemma tag_bytes:
  "encodeVarint (js_or (js_shl 1 3) VARINT) = [0x08]"
  "encodeVarint (js_or (js_shl 3 3) VARINT) = [0x18]"
  "encodeVarint (js_or (js_shl 4 3) VARINT) = [0x20]"
  "encodeVarint (js_or (js_shl 5 3) VARINT) = [0x28]"
  "encodeVarint (js_or (js_shl 6 3) VARINT) = [0x30]"
  "encodeVarint (js_or (js_shl 7 3) VARINT) = [0x38]"
  "encodeVarint (js_or (js_shl 11 3) VARINT) = [0x58]"
  "encodeVarint (js_or (js_shl 12 3) VARINT) = [0x60]"
  "encodeVarint (js_or (js_shl 1 3) LENGTH_DELIMITED) = [0x0A]"
  "encodeVarint (js_or (js_shl 2 3) LENGTH_DELIMITED) = [0x12]"
  "encodeVarint (js_or (js_shl 3 3) LENGTH_DELIMITED) = [0x1A]"
  by (simp_all add: tag_small VARINT_def LENGTH_DELIMITED_def encodeVarint_small)

lemma encodeUint32_bytes:
  "encodeUint32 1 v = Some (varintField 0x08 v)"
  "encodeUint32 3 v = Some (varintField 0x18 v)"
  "encodeUint32 4 v = Some (varintField 0x20 v)"
  "encodeUint32 7 v = Some (varintField 0x38 v)"
  "encodeUint32 12 v = Some (varintField 0x60 v)"
  by (simp_all add: encodeUint32_def encodeField_VARINT tag_bytes varintField_def)

lemma encodeBool_bytes:
  "encodeBool 5 b = Some (varintField 0x28 (if b then 1 else 0))"
  "encodeBool 6 b = Some (varintField 0x30 (if b then 1 else 0))"
  "encodeBool 11 b = Some (varintField 0x58 (if b then 1 else 0))"
  by (simp_all add: encodeBool_def encodeField_VARINT tag_bytes varintField_def)

lemma encodeBytes_bytes:
  "encodeBytes 2 k = Some (lengthDelimitedField 0x12 k)"
  by (simp add: encodeBytes_def encodeField_LENGTH_DELIMITED tag_bytes lengthDelimitedField_def)

lemma encodeString_bytes:
  "encodeString 3 str = Some (lengthDelimitedField 0x1A (TextEncoder_encode str))"
  by (simp add: encodeString_def Let_def encodeField_LENGTH_DELIMITED tag_bytes
      lengthDelimitedField_def)

lemma encodeField_submessage:
  "encodeField 1 LENGTH_DELIMITED (Bytes m) = Some (lengthDelimitedField 0x0A m)"
  "encodeField 2 LENGTH_DELIMITED (Bytes m) = Some (lengthDelimitedField 0x12 m)"
  by (simp_all add: encodeField_LENGTH_DELIMITED tag_bytes lengthDelimitedField_def)

lemma buildChannelSettings_eq: "buildChannelSettings s = Some (channelSettingsBytes s)"
  by (simp add: buildChannelSettings_def channelSettingsBytes_def encodeUint32_bytes
      encodeBool_bytes encodeBytes_bytes encodeString_bytes split: option.split)

lemma buildChannel_eq: "buildChannel c = Some (channelBytes c)"
  by (simp add: buildChannel_def channelBytes_def buildChannelSettings_eq encodeUint32_bytes
      encodeField_submessage split: option.split)

lemma buildLoRaConfig_eq: "buildLoRaConfig l = Some (loRaConfigBytes l)"
  by (simp add: buildLoRaConfig_def loRaConfigBytes_def encodeUint32_bytes encodeBool_bytes
      split: option.split)

lemma buildChannelSet_forEach_eq:
  "buildChannelSet_forEach parts cs =
     Some (parts @ map (\<lambda>c. lengthDelimitedField 0x0A (channelBytes c)) cs)"
  by (induction cs arbitrary: parts) (simp_all add: buildChannel_eq encodeField_submessage)

lemma buildChannelSet_eq:
  "buildChannelSet config =
     Some (concat (map (\<lambda>c. lengthDelimitedField 0x0A (channelBytes c))
                    (case channels config of Some cs \<Rightarrow> cs | None \<Rightarrow> []))
           @ (case lora config of
                Some l \<Rightarrow> lengthDelimitedField 0x12 (loRaConfigBytes l)
              | None \<Rightarrow> []))"
  by (simp add: buildChannelSet_def buildChannelSet_forEach_eq buildLoRaConfig_eq
      encodeField_submessage split: option.split)

text \<open>
  C3. A \<open>ChannelSettings\<close> with \<open>channelNum: 0\<close> is encoded as one without
  \<open>channelNum\<close>: field 1 takes no bytes, and when nothing else is set the message is
  empty. With \<open>channelNum: 3\<close> the encoding starts with field 1: the tag \<open>0x08\<close> and
  the varint of 3, which is the byte 3; the other fields follow unchanged.
\<close>

theorem channelNum_omitted_or_varint:
  "buildChannelSettings (s\<lparr>channelNum := Some 0\<rparr>) = buildChannelSettings (s\<lparr>channelNum := None\<rparr>)
   \<and> buildChannelSettings \<lparr>channelNum = Some 0, psk = None, name = None,
        uplinkEnabled = None, downlinkEnabled = None\<rparr> = Some []
   \<and> (\<exists>rest. buildChannelSettings (s\<lparr>channelNum := None\<rparr>) = Some rest
        \<and> buildChannelSettings (s\<lparr>channelNum := Some 3\<rparr>) = Some ([0x08] @ varint 3 @ rest))
   \<and> varint 3 = [0x03]"
  by (simp add: buildChannelSettings_eq channelSettingsBytes_def varintField_def
      encodeVarint_small varint.simps)

lemma TextEncoder_encode_A: "TextEncoder_encode (js_literal ''A'') = [0x41]"
  by (simp add: TextEncoder_encode_def js_literal_def scalarValue_def isHighSurrogate_def
      isLowSurrogate_def utf8_def)

text \<open>
  C10. A \<open>ChannelSettings\<close> whose name is the empty string is encoded exactly as one
  without a name: field 3 takes no bytes. In particular settings that hold nothing but
  an empty name are encoded as the empty message, while the name \<open>A\<close> alone is encoded
  as field 3, \<open>1A 01 41\<close>.
\<close>

theorem empty_name_omitted:
  "buildChannelSettings (s\<lparr>name := Some []\<rparr>) = buildChannelSettings (s\<lparr>name := None\<rparr>)
   \<and> buildChannelSettings \<lparr>channelNum = None, psk = None, name = Some [],
        uplinkEnabled = None, downlinkEnabled = None\<rparr> = Some []
   \<and> buildChannelSettings \<lparr>channelNum = None, psk = None, name = Some (js_literal ''A''),
        uplinkEnabled = None, downlinkEnabled = None\<rparr> = Some [0x1A, 0x01, 0x41]"
proof -
  have "js_literal ''A'' \<noteq> []" by (simp add: js_literal_def)
  then show ?thesis
    by (simp add: buildChannelSettings_eq channelSettingsBytes_def lengthDelimitedField_def
        TextEncoder_encode_A encodeVarint_small)
qed


lemma tag_nat:
  assumes "w < 8"
  shows "push_bit 3 f OR w = 8 * f + (w::nat)"
proof -
  have w: "take_bit 3 w = w" using assms by (simp add: take_bit_nat_eq_self)
  have "push_bit 3 f AND take_bit 3 w = 0"
    by (rule bit_eqI) (auto simp: bit_simps)
  then have "8 * f AND w = 0" using w by (simp add: push_bit_eq_mult mult.commute)
  then have "8 * f + w = 8 * f OR w" by (rule disjunctive_add_eq_or)
  then show ?thesis by (simp add: push_bit_eq_mult mult.commute)
qed

lemma encodeVarint_tag:
  assumes "0 \<le> f" "f < 2 ^ 28" "0 \<le> w" "w < 8"
  shows "encodeVarint (js_or (js_shl f 3) w) = encodeTag (nat f) (nat w)"
proof -
  have "js_or (js_shl f 3) w = 8 * f + w" using assms by (rule tag_small)
  moreover have "push_bit 3 (nat f) OR nat w = 8 * nat f + nat w"
    using assms by (intro tag_nat) simp
  moreover have "nat (8 * f + w) = 8 * nat f + nat w" using assms by simp
  moreover have "encodeVarint (8 * f + w) = varint (nat (8 * f + w))"
    using assms by (intro encodeVarint_eq_varint) simp_all
  ultimately show ?thesis by (simp add: encodeTag_def)
qed

text \<open>
  An array at wire type VARINT is encoded as the number it converts to: the element of a
  one-element array, and 0 for the empty array and for a longer one.
\<close>

lemma encodeField_array_as_number:
  "encodeField 1 VARINT (Bytes [5]) = Some [0x08, 0x05]"
  "encodeField 1 VARINT (Bytes []) = Some [0x08, 0x00]"
  "encodeField 1 VARINT (Bytes [1, 2]) = Some [0x08, 0x00]"
  by (simp_all add: encodeField_def Let_def tag_bytes encodeVarint_array_def arrayToNumber_def
      encodeVarint_small uint8Array_def)

text \<open>
  The layout of a field with the operators of the source, for every field number and
  wire type: the bytes begin with \<^verbatim>\<open>encodeVarint((fieldNumber << 3) | wireType)\<close>, and at
  the length-delimited wire type they are this tag, \<^verbatim>\<open>encodeVarint\<close> of the length of the
  payload and the payload.
\<close>

lemma encodeField_layout:
  "(\<forall>bs. encodeField f w d = Some bs \<longrightarrow>
      (\<exists>rest. bs = encodeVarint (js_or (js_shl f 3) w) @ rest))
   \<and> encodeField f LENGTH_DELIMITED (Bytes payload) =
       Some (encodeVarint (js_or (js_shl f 3) LENGTH_DELIMITED)
             @ encodeVarint (int (length payload)) @ payload)
   \<and> encodeBytes f payload = encodeField f LENGTH_DELIMITED (Bytes payload)
   \<and> encodeString f str = encodeField f LENGTH_DELIMITED (Bytes (TextEncoder_encode str))
   \<and> buildChannel \<lparr>index = None, settings = Some cs, role = None\<rparr> =
       Option.bind (buildChannelSettings cs) (\<lambda>m. encodeField 2 LENGTH_DELIMITED (Bytes m))
   \<and> (0 \<le> f \<and> f < 2 ^ 28 \<and> 0 \<le> w \<and> w < 8 \<longrightarrow>
        encodeVarint (js_or (js_shl f 3) w) = encodeTag (nat f) (nat w))
   \<and> (0 \<le> f \<and> f < 2 ^ 28 \<and> length payload < 2 ^ 32 \<longrightarrow>
        encodeField f LENGTH_DELIMITED (Bytes payload) =
          Some (encodeLengthDelimitedField (nat f) payload))"
proof (intro conjI allI impI)
  fix bs
  assume "encodeField f w d = Some bs"
  then show "\<exists>rest. bs = encodeVarint (js_or (js_shl f 3) w) @ rest"
    by (auto simp: encodeField_def Let_def split: if_splits field_data.splits)
next
  show "encodeField f LENGTH_DELIMITED (Bytes payload) =
      Some (encodeVarint (js_or (js_shl f 3) LENGTH_DELIMITED)
            @ encodeVarint (int (length payload)) @ payload)"
    by (rule encodeField_LENGTH_DELIMITED)
next
  show "encodeBytes f payload = encodeField f LENGTH_DELIMITED (Bytes payload)"
    by (simp add: encodeBytes_def)
next
  show "encodeString f str = encodeField f LENGTH_DELIMITED (Bytes (TextEncoder_encode str))"
    by (simp add: encodeString_def)
next
  show "buildChannel \<lparr>index = None, settings = Some cs, role = None\<rparr> =
      Option.bind (buildChannelSettings cs) (\<lambda>m. encodeField 2 LENGTH_DELIMITED (Bytes m))"
    by (simp add: buildChannel_eq channelBytes_def buildChannelSettings_eq encodeField_submessage)
next
  assume "0 \<le> f \<and> f < 2 ^ 28 \<and> 0 \<le> w \<and> w < 8"
  then show "encodeVarint (js_or (js_shl f 3) w) = encodeTag (nat f) (nat w)"
    by (simp add: encodeVarint_tag)
next
  assume a: "0 \<le> f \<and> f < 2 ^ 28 \<and> length payload < 2 ^ 32"
  then have "encodeVarint (js_or (js_shl f 3) LENGTH_DELIMITED) = encodeTag (nat f) 2"
    using encodeVarint_tag [of f 2] by (simp add: LENGTH_DELIMITED_def)
  moreover have "encodeVarint (int (length payload)) = varint (length payload)"
    using a encodeVarint_eq_varint [of "int (length payload)"] by simp
  ultimately show "encodeField f LENGTH_DELIMITED (Bytes payload) =
      Some (encodeLengthDelimitedField (nat f) payload)"
    by (simp add: encodeField_LENGTH_DELIMITED encodeLengthDelimitedField_def)
qed

lemma tag_js:
  assumes "0 \<le> f" "f < 2 ^ 28" "0 \<le> w" "w < 2 ^ 31"
  shows "js_or (js_shl f 3) w = int (push_bit 3 (nat f) OR nat w)"
    and "0 \<le> js_or (js_shl f 3) w"
    and "js_or (js_shl f 3) w < 2 ^ 32"
proof -
  have s: "js_shl f 3 = push_bit 3 f"
    using assms by (simp add: js_shl_def ToUint32_def ToInt32_small push_bit_eq_mult)
  have p: "0 \<le> push_bit 3 f" "push_bit 3 f < 2 ^ 31"
    using assms by (simp_all add: push_bit_eq_mult)
  have j: "js_or (js_shl f 3) w = push_bit 3 f OR w"
    using assms p by (simp add: js_or_def s ToInt32_small)
  have "int (push_bit 3 (nat f) OR nat w) = push_bit 3 f OR w"
    using assms by (simp add: of_nat_or_eq of_nat_push_bit)
  then show "js_or (js_shl f 3) w = int (push_bit 3 (nat f) OR nat w)"
    using j by simp
  show "0 \<le> js_or (js_shl f 3) w"
    using assms p by (simp add: j)
  have "push_bit 3 f OR w < 2 ^ 31"
    using p assms by (intro OR_upper) simp_all
  then show "js_or (js_shl f 3) w < 2 ^ 32"
    by (simp add: j)
qed

lemma encodeVarint_encodeTag:
  assumes "0 \<le> f" "f < 2 ^ 28" "0 \<le> w" "w < 2 ^ 31"
  shows "encodeVarint (js_or (js_shl f 3) w) = encodeTag (nat f) (nat w)"
proof -
  note t = tag_js [OF assms]
  have "encodeVarint (js_or (js_shl f 3) w) = varint (nat (js_or (js_shl f 3) w))"
    using t(2,3) by (rule encodeVarint_eq_varint)
  also have "nat (js_or (js_shl f 3) w) = push_bit 3 (nat f) OR nat w"
    by (simp only: t(1) nat_int)
  finally show ?thesis by (simp add: encodeTag_def)
qed

lemma encodeField_2_28:
  "encodeField (2 ^ 28) LENGTH_DELIMITED (Bytes [1]) = Some [0x02, 0x01, 0x01]"
proof -
  have "js_shl (2 ^ 28) 3 = - (2 ^ 31)"
    by (simp add: js_shl_def ToInt32_def ToUint32_def)
  then have "js_or (js_shl (2 ^ 28) 3) LENGTH_DELIMITED = - 2147483646"
    by (simp add: js_or_def ToInt32_def LENGTH_DELIMITED_def)
  then have "encodeVarint (js_or (js_shl (2 ^ 28) 3) LENGTH_DELIMITED) = [0x02]"
    by (simp add: encodeVarint_last)
  then show ?thesis
    by (simp add: encodeField_LENGTH_DELIMITED encodeVarint_last)
qed

lemma spec_2_28:
  "encodeLengthDelimitedField (2 ^ 28) [1] = [0x82, 0x80, 0x80, 0x80, 0x08, 0x01, 0x01]"
  by (simp add: encodeLengthDelimitedField_def encodeTag_def tag_nat varint.simps)

lemma long_payload:
  assumes "length payload = 2 ^ 32"
  shows "encodeField 1 LENGTH_DELIMITED (Bytes payload)
     \<noteq> Some (encodeLengthDelimitedField 1 payload)"
proof -
  have "encodeVarint (int (length payload)) = [0x80, 0x00]"
    using assms by (simp add: encodeVarint_step encodeVarint_last)
  moreover have "varint (length payload) = [0x80, 0x80, 0x80, 0x80, 0x10]"
    using assms by (simp add: varint.simps)
  ultimately show ?thesis
    by (simp add: encodeField_LENGTH_DELIMITED encodeLengthDelimitedField_def)
qed

text \<open>
  C5 (as amended). For every field number from 0 to \<open>2^28 - 1\<close> and every wire type (any
  number from 0 below \<open>2^31\<close>, which covers the wire types 0 to 7 of the protocol), the
  bytes that \<^verbatim>\<open>encodeField\<close> returns begin with the varint of the tag
  \<open>(fieldNumber << 3) | wireType\<close>. At the length-delimited wire type, for a payload
  shorter than \<open>2^32\<close> bytes, the field is the tag, the varint of the length of the payload
  and the payload; byte blobs (\<^verbatim>\<open>encodeBytes\<close>), strings (\<^verbatim>\<open>encodeString\<close>, on the UTF-8
  bytes) and nested messages (the settings of a channel, as field 2) are all encoded in
  this way.
\<close>

theorem encodeField_tag_length_payload:
  assumes "0 \<le> f" and "f < 2 ^ 28" and "0 \<le> w" and "w < 2 ^ 31"
  shows "(\<forall>bs. encodeField f w d = Some bs \<longrightarrow>
            (\<exists>rest. bs = encodeTag (nat f) (nat w) @ rest))
    \<and> (length payload < 2 ^ 32 \<longrightarrow>
         encodeField f LENGTH_DELIMITED (Bytes payload) =
           Some (encodeLengthDelimitedField (nat f) payload)
         \<and> encodeBytes f payload = Some (encodeLengthDelimitedField (nat f) payload))
    \<and> (length (TextEncoder_encode str) < 2 ^ 32 \<longrightarrow>
         encodeString f str =
           Some (encodeLengthDelimitedField (nat f) (TextEncoder_encode str)))
    \<and> (\<forall>m. buildChannelSettings cs = Some m \<and> length m < 2 ^ 32 \<longrightarrow>
           buildChannel \<lparr>index = None, settings = Some cs, role = None\<rparr> =
             Some (encodeLengthDelimitedField 2 m))"
proof -
  have tag: "encodeVarint (js_or (js_shl f 3) w) = encodeTag (nat f) (nat w)"
    using assms by (rule encodeVarint_encodeTag)
  have ld: "encodeField g LENGTH_DELIMITED (Bytes p) = Some (encodeLengthDelimitedField (nat g) p)"
    if "0 \<le> g" "g < 2 ^ 28" "length p < 2 ^ 32" for g p
  proof -
    have "encodeVarint (js_or (js_shl g 3) LENGTH_DELIMITED) = encodeTag (nat g) 2"
      using that encodeVarint_encodeTag [of g 2] by (simp add: LENGTH_DELIMITED_def)
    moreover have "encodeVarint (int (length p)) = varint (length p)"
      using that encodeVarint_eq_varint [of "int (length p)"] by simp
    ultimately show ?thesis
      by (simp add: encodeField_LENGTH_DELIMITED encodeLengthDelimitedField_def)
  qed
  have 1: "\<forall>bs. encodeField f w d = Some bs \<longrightarrow>
      (\<exists>rest. bs = encodeTag (nat f) (nat w) @ rest)"
  proof (intro allI impI)
    fix bs
    assume "encodeField f w d = Some bs"
    then have "\<exists>rest. bs = encodeVarint (js_or (js_shl f 3) w) @ rest"
      by (auto simp: encodeField_def Let_def split: if_splits field_data.splits)
    then show "\<exists>rest. bs = encodeTag (nat f) (nat w) @ rest"
      by (simp only: tag)
  qed
  have 2: "length payload < 2 ^ 32 \<longrightarrow>
      encodeField f LENGTH_DELIMITED (Bytes payload) =
        Some (encodeLengthDelimitedField (nat f) payload)
      \<and> encodeBytes f payload = Some (encodeLengthDelimitedField (nat f) payload)"
    using assms by (simp add: encodeBytes_def ld)
  have 3: "length (TextEncoder_encode str) < 2 ^ 32 \<longrightarrow>
      encodeString f str = Some (encodeLengthDelimitedField (nat f) (TextEncoder_encode str))"
    using assms by (simp add: encodeString_def Let_def ld)
  have 4: "\<forall>m. buildChannelSettings cs = Some m \<and> length m < 2 ^ 32 \<longrightarrow>
      buildChannel \<lparr>index = None, settings = Some cs, role = None\<rparr> =
        Some (encodeLengthDelimitedField 2 m)"
  proof (intro allI impI)
    fix m
    assume a: "buildChannelSettings cs = Some m \<and> length m < 2 ^ 32"
    then have "encodeField 2 LENGTH_DELIMITED (Bytes m) = Some (encodeLengthDelimitedField (nat 2) m)"
      by (intro ld) simp_all
    then show "buildChannel \<lparr>index = None, settings = Some cs, role = None\<rparr> =
        Some (encodeLengthDelimitedField 2 m)"
      using a by (simp add: buildChannel_def)
  qed
  show ?thesis using 1 2 3 4 by blast
qed

text \<open>Field 3 with the two bytes \<open>48 69\<close> as its payload is \<open>1A 02 48 69\<close>.\<close>

theorem encodeField_tag_length_payload_witness:
  "encodeField 3 LENGTH_DELIMITED (Bytes [0x48, 0x69]) = Some [0x1A, 0x02, 0x48, 0x69]
   \<and> encodeLengthDelimitedField 3 [0x48, 0x69] = [0x1A, 0x02, 0x48, 0x69]
   \<and> encodeTag 3 2 = [0x1A]"
proof -
  have tag: "encodeTag 3 2 = [0x1A]"
    by (simp add: encodeTag_def tag_nat varint.simps)
  have spec: "encodeLengthDelimitedField 3 [0x48, 0x69] = [0x1A, 0x02, 0x48, 0x69]"
    by (simp add: encodeLengthDelimitedField_def tag varint.simps)
  have "length [0x48, 0x69 :: byte] < 2 ^ 32" by simp
  then have "encodeField 3 LENGTH_DELIMITED (Bytes [0x48, 0x69]) =
      Some (encodeLengthDelimitedField (nat 3) [0x48, 0x69])"
    using encodeField_tag_length_payload [of 3 2 _ "[0x48, 0x69]"]
    by simp
  then show ?thesis using tag spec by simp
qed

text \<open>
  At field number \<open>2^28\<close> the shift leaves the 32-bit range: the tag of the code is the
  single byte \<open>02\<close>, that of field number 0, while the varint of the tag is
  \<open>82 80 80 80 08\<close>. For a payload of \<open>2^32\<close> bytes the length is encoded as \<open>80 00\<close>, not
  as its varint.
\<close>

theorem encodeField_2_28_counterexample:
  "encodeField (2 ^ 28) LENGTH_DELIMITED (Bytes [1]) = Some [0x02, 0x01, 0x01]
   \<and> encodeLengthDelimitedField (2 ^ 28) [1] = [0x82, 0x80, 0x80, 0x80, 0x08, 0x01, 0x01]
   \<and> encodeField (2 ^ 28) LENGTH_DELIMITED (Bytes [1]) \<noteq>
       Some (encodeLengthDelimitedField (2 ^ 28) [1])
   \<and> encodeField 1 LENGTH_DELIMITED (Bytes (replicate (2 ^ 32) 0)) \<noteq>
       Some (encodeLengthDelimitedField 1 (replicate (2 ^ 32) 0))"
proof -
  have "length (replicate (2 ^ 32) (0::byte)) = 2 ^ 32" by (simp only: length_replicate)
  then have "encodeField 1 LENGTH_DELIMITED (Bytes (replicate (2 ^ 32) 0)) \<noteq>
      Some (encodeLengthDelimitedField 1 (replicate (2 ^ 32) 0))"
    by (rule long_payload)
  then show ?thesis by (simp only: encodeField_2_28 spec_2_28) simp
qed

section \<open>Properties of the base64 framer\<close>

lemma uint8ArrayToBase64_loop_eq:
  "uint8ArrayToBase64_loop bytes binary i = binary @ map String_fromCharCode (drop i bytes)"
proof (induction "length bytes - i" arbitrary: binary i)
  case 0
  then show ?case by (subst uint8ArrayToBase64_loop.simps) simp
next
  case (Suc n)
  then have i: "i < length bytes" and n: "n = length bytes - Suc i" by simp_all
  have "uint8ArrayToBase64_loop bytes binary i =
      uint8ArrayToBase64_loop bytes (binary @ [String_fromCharCode (bytes ! i)]) (Suc i)"
    using i by (subst uint8ArrayToBase64_loop.simps) simp
  also have "\<dots> = (binary @ [String_fromCharCode (bytes ! i)])
      @ map String_fromCharCode (drop (Suc i) bytes)"
    using n by (rule Suc.hyps(1))
  also have "\<dots> = binary @ map String_fromCharCode (drop i bytes)"
    using i by (simp flip: Cons_nth_drop_Suc)
  finally show ?case .
qed

lemma uint8ArrayToBase64_eq: "uint8ArrayToBase64 bytes = btoa (map String_fromCharCode bytes)"
  by (simp add: uint8ArrayToBase64_def uint8ArrayToBase64_loop_eq)

lemma base64ToUint8Array_loop_eq:
  assumes "length bytes = length binary"
  shows "base64ToUint8Array_loop binary bytes i =
    take i bytes @ map (\<lambda>c. word_of_int (int (of_char c))) (drop i binary)"
  using assms
proof (induction "length binary - i" arbitrary: bytes i)
  case 0
  then show ?case by (subst base64ToUint8Array_loop.simps) simp
next
  case (Suc n)
  let ?g = "\<lambda>c. word_of_int (int (of_char c)) :: byte"
  have i: "i < length binary" and n: "n = length binary - Suc i" using Suc.hyps(2) by simp_all
  let ?bytes = "bytes[i := word_of_int (charCodeAt binary i)]"
  have "base64ToUint8Array_loop binary bytes i = base64ToUint8Array_loop binary ?bytes (Suc i)"
    using i by (subst base64ToUint8Array_loop.simps) simp
  also have "\<dots> = take (Suc i) ?bytes @ map ?g (drop (Suc i) binary)"
    using n Suc.prems by (intro Suc.hyps(1)) simp_all
  also have "take (Suc i) ?bytes = take i bytes @ [?g (binary ! i)]"
    using i Suc.prems by (simp add: take_Suc_conv_app_nth charCodeAt_def)
  also have "(take i bytes @ [?g (binary ! i)]) @ map ?g (drop (Suc i) binary)
      = take i bytes @ map ?g (drop i binary)"
    using i by (simp flip: Cons_nth_drop_Suc)
  finally show ?case .
qed

lemma base64ToUint8Array_eq:
  "base64ToUint8Array base64 =
     map_option (map (\<lambda>c. word_of_int (int (of_char c)))) (atob base64)"
  by (cases "atob base64") (simp_all add: base64ToUint8Array_def base64ToUint8Array_loop_eq)

lemma fromCharCode_inverse: "word_of_int (int (of_char (String_fromCharCode b))) = b"
proof -
  have "unat b < 2 ^ LENGTH(8)" by (rule unsigned_less)
  then have "of_char (String_fromCharCode b) = unat b"
    by (simp add: String_fromCharCode_def)
  then show ?thesis by simp
qed

lemma of_char_base64_char:
  assumes "i < 64"
  shows "of_char (base64_char i) =
    (if i < 26 then 65 + i else if i < 52 then 71 + i else if i < 62 then i - 4
     else if i = 62 then 43 else (47::nat))"
  using assms by (simp add: base64_char_def)

lemma char_eq_code: "c = d \<longleftrightarrow> (of_char c :: nat) = of_char d"
  by simp

lemma base64_index_char: "i < 64 \<Longrightarrow> base64_index (base64_char i) = Some i"
  unfolding base64_index_def Let_def of_char_base64_char
  by (simp split: if_splits) arith

lemma base64_char_facts:
  assumes "i < 64"
  shows "base64url_char (url_subst (base64_char i))"
    and "base64_char i \<noteq> CHR ''=''"
    and "\<not> is_ascii_whitespace (base64_char i)"
    and "url_unsubst (url_subst (base64_char i)) = base64_char i"
    and "url_subst (base64_char i) \<noteq> CHR ''=''"
proof -
  let ?n = "of_char (base64_char i) :: nat"
  have n: "?n = (if i < 26 then 65 + i else if i < 52 then 71 + i else if i < 62 then i - 4
     else if i = 62 then 43 else 47)"
    using assms by (rule of_char_base64_char)
  have eq: "\<And>k. base64_char i = char_of k \<longleftrightarrow> ?n = k mod 256"
    by (auto simp: char_eq_code [of "base64_char i"])
  have plus: "base64_char i = CHR ''+'' \<longleftrightarrow> ?n = 43"
    and slash: "base64_char i = CHR ''/'' \<longleftrightarrow> ?n = 47"
    and minus: "base64_char i = CHR ''-'' \<longleftrightarrow> ?n = 45"
    and under: "base64_char i = CHR ''_'' \<longleftrightarrow> ?n = 95"
    and equals: "base64_char i = CHR ''='' \<longleftrightarrow> ?n = 61"
    by (simp_all add: char_eq_code [of "base64_char i"])
  show "base64_char i \<noteq> CHR ''=''"
    unfolding equals n using assms by (simp split: if_splits; arith?)
  show "\<not> is_ascii_whitespace (base64_char i)"
    unfolding is_ascii_whitespace_def n using assms by (simp split: if_splits; arith?)
  show "base64url_char (url_subst (base64_char i))"
  proof (cases "?n = 43 \<or> ?n = 47")
    case True
    then show ?thesis
      by (auto simp: url_subst_def plus slash base64url_char_def Let_def)
  next
    case False
    then have "url_subst (base64_char i) = base64_char i"
      by (simp add: url_subst_def plus slash)
    moreover have "(65 \<le> ?n \<and> ?n \<le> 90) \<or> (97 \<le> ?n \<and> ?n \<le> 122) \<or> (48 \<le> ?n \<and> ?n \<le> 57)"
      using False assms unfolding n by (simp split: if_splits; arith?)
    ultimately show ?thesis unfolding base64url_char_def Let_def by auto
  qed
  have "?n \<noteq> 45"
    unfolding n using assms by (simp split: if_splits; arith?)
  moreover have "?n \<noteq> 95"
    unfolding n using assms by (simp split: if_splits; arith?)
  ultimately have notmu: "?n \<noteq> 45 \<and> ?n \<noteq> 95" ..
  have c: "base64_char i \<noteq> CHR ''-''" "base64_char i \<noteq> CHR ''_''"
    using notmu by (simp_all add: minus under)
  show "url_unsubst (url_subst (base64_char i)) = base64_char i"
  proof (cases "base64_char i = CHR ''+''")
    case True
    then show ?thesis by (simp add: url_subst_def url_unsubst_def)
  next
    case False
    show ?thesis
    proof (cases "base64_char i = CHR ''/''")
      case True
      then show ?thesis by (simp add: url_subst_def url_unsubst_def)
    next
      case False
      then show ?thesis
        using \<open>base64_char i \<noteq> CHR ''+''\<close> c by (simp add: url_subst_def url_unsubst_def)
    qed
  qed
  have "?n \<noteq> 61"
    unfolding n using assms by (simp split: if_splits; arith?)
  then show "url_subst (base64_char i) \<noteq> CHR ''=''"
    by (auto simp: url_subst_def equals)
qed

lemma padding_simps [simp]:
  "padding (a # b # c # rest) = padding rest"
  "padding [a, b] = ''=''"
  "padding [a] = ''==''"
  "padding [] = []"
proof -
  have "length (a # b # c # rest) = length rest + 3" by simp
  then have "length (a # b # c # rest) mod 3 = length rest mod 3"
    by (simp only: mod_add_self2)
  then show "padding (a # b # c # rest) = padding rest"
    by (simp only: padding_def)
  have "(3 - length [a, b] mod 3) mod 3 = Suc 0" by simp
  then show "padding [a, b] = ''=''" by (simp only: padding_def replicate.simps)
  have "(3 - length [a] mod 3) mod 3 = Suc (Suc 0)" by simp
  then show "padding [a] = ''==''" by (simp only: padding_def replicate.simps)
  show "padding [] = []" by (simp add: padding_def)
qed

lemma btoa_eq: "btoa bin = map base64_char (sextets bin) @ padding bin"
  by (induction bin rule: btoa.induct) (simp_all add: Let_def)

lemma group_bounds:
  fixes x y z :: nat
  assumes "x < 256" "y < 256" "z < 256"
  shows "x div 4 < 64" and "x mod 4 * 16 + y div 16 < 64"
    and "y mod 16 * 4 + z div 64 < 64" and "z mod 64 < 64"
    and "x mod 4 * 16 < 64" and "y mod 16 * 4 < 64"
proof -
  have a: "y div 16 < 16" "z div 64 < 4" "x mod 4 < 4" "y mod 16 < 16"
    using assms by simp_all
  show "x div 4 < 64" using assms by simp
  show "x mod 4 * 16 + y div 16 < 64" using a by linarith
  show "y mod 16 * 4 + z div 64 < 64" using a by linarith
  show "z mod 64 < 64" by simp
  show "x mod 4 * 16 < 64" using a by linarith
  show "y mod 16 * 4 < 64" using a by linarith
qed

lemma sextets_lt: "list_all (\<lambda>s. s < 64) (sextets bin)"
proof (induction bin rule: sextets.induct)
  case (1 a b c rest)
  note g = group_bounds [of "of_char a" "of_char b" "of_char c", simplified]
  show ?case using 1 g by (simp add: Let_def)
next
  case (2 a b)
  note g = group_bounds [of "of_char a" "of_char b" 0, simplified]
  show ?case using g by (simp add: Let_def)
next
  case (3 a)
  note g = group_bounds [of "of_char a" 0 0, simplified]
  show ?case using g by (simp add: Let_def)
next
  case 4
  then show ?case by simp
qed

lemma group_arith:
  fixes x y z :: nat
  assumes "y < 256" "z < 256"
  shows "x div 4 * 4 + (x mod 4 * 16 + y div 16) div 16 = x"
    and "(x mod 4 * 16 + y div 16) mod 16 * 16 + (y mod 16 * 4 + z div 64) div 4 = y"
    and "(y mod 16 * 4 + z div 64) mod 4 * 64 + z mod 64 = z"
    and "(x mod 4 * 16 + y div 16) mod 16 * 16 + (y mod 16 * 4) div 4 = y"
    and "x div 4 * 4 + (x mod 4 * 16) div 16 = x"
proof -
  have a: "y div 16 < 16" "z div 64 < 4" using assms by simp_all
  have b: "(x mod 4 * 16 + y div 16) div 16 = x mod 4"
      "(x mod 4 * 16 + y div 16) mod 16 = y div 16"
      "(y mod 16 * 4 + z div 64) div 4 = y mod 16"
      "(y mod 16 * 4 + z div 64) mod 4 = z div 64"
    using a by simp_all
  show "x div 4 * 4 + (x mod 4 * 16 + y div 16) div 16 = x" using b by simp
  show "(x mod 4 * 16 + y div 16) mod 16 * 16 + (y mod 16 * 4 + z div 64) div 4 = y"
    using b by simp
  show "(y mod 16 * 4 + z div 64) mod 4 * 64 + z mod 64 = z" using b by simp
  show "(x mod 4 * 16 + y div 16) mod 16 * 16 + (y mod 16 * 4) div 4 = y" using b by simp
  show "x div 4 * 4 + (x mod 4 * 16) div 16 = x" by simp
qed

lemma decode_group:
  fixes a b c :: char
  defines "x \<equiv> of_char a :: nat" and "y \<equiv> of_char b :: nat" and "z \<equiv> of_char c :: nat"
  shows "char_of (x div 4 * 4 + (x mod 4 * 16 + y div 16) div 16) = a"
    and "char_of ((x mod 4 * 16 + y div 16) mod 16 * 16 + (y mod 16 * 4 + z div 64) div 4) = b"
    and "char_of ((y mod 16 * 4 + z div 64) mod 4 * 64 + z mod 64) = c"
    and "char_of ((x mod 4 * 16 + y div 16) mod 16 * 16 + (y mod 16 * 4) div 4) = b"
    and "char_of (x div 4 * 4 + (x mod 4 * 16) div 16) = a"
proof -
  have yz: "y < 256" "z < 256" by (simp_all add: y_def z_def)
  note g = group_arith [OF yz]
  show "char_of (x div 4 * 4 + (x mod 4 * 16 + y div 16) div 16) = a"
    by (simp only: g) (simp add: x_def)
  show "char_of ((x mod 4 * 16 + y div 16) mod 16 * 16 + (y mod 16 * 4 + z div 64) div 4) = b"
    by (simp only: g) (simp add: y_def)
  show "char_of ((y mod 16 * 4 + z div 64) mod 4 * 64 + z mod 64) = c"
    by (simp only: g) (simp add: z_def)
  show "char_of ((x mod 4 * 16 + y div 16) mod 16 * 16 + (y mod 16 * 4) div 4) = b"
    by (simp only: g) (simp add: y_def)
  show "char_of (x div 4 * 4 + (x mod 4 * 16) div 16) = a"
    by (simp only: g) (simp add: x_def)
qed

lemma base64_decode_sextets: "base64_decode (sextets bin) = bin"
proof (induction bin rule: sextets.induct)
  case (1 a b c rest)
  have "base64_decode (sextets rest) = rest" using 1 by simp
  then show ?case
    by (simp only: sextets.simps Let_def base64_decode.simps append_Cons append_Nil
        decode_group)
next
  case (2 a b)
  show ?case
    by (simp only: sextets.simps Let_def base64_decode.simps append_Cons append_Nil
        decode_group)
next
  case (3 a)
  show ?case
    by (simp only: sextets.simps Let_def base64_decode.simps append_Cons append_Nil
        decode_group)
next
  case 4
  show ?case by simp
qed

lemma those_base64_index:
  "list_all (\<lambda>s. s < 64) sx \<Longrightarrow> those (map base64_index (map base64_char sx)) = Some sx"
  by (induction sx) (simp_all add: base64_index_char)

lemma length_sextets_mod4:
  "length (sextets bin) mod 4 \<noteq> Suc 0"
  "(length (sextets bin) + length (padding bin)) mod 4 = 0"
  "(4 - length (sextets bin) mod 4) mod 4 = length (padding bin)"
  by (induction bin rule: sextets.induct) (simp_all add: Let_def)

lemma body_facts:
  "list_all (\<lambda>c. c \<noteq> CHR ''='' \<and> \<not> is_ascii_whitespace c) (map base64_char (sextets bin))"
  using sextets_lt [of bin]
  by (induction "sextets bin" arbitrary: bin) (auto simp: list_all_iff base64_char_facts)

lemma strip_padding_cases:
  assumes l: "body \<noteq> [] \<Longrightarrow> last body \<noteq> CHR ''=''"
    and len: "(length body + k) mod 4 = 0"
    and k: "k < 3"
  shows "strip_padding (body @ replicate k CHR ''='') = body"
proof -
  consider "k = 0" | "k = Suc 0" | "k = Suc (Suc 0)" using k by linarith
  then show ?thesis
  proof cases
    case 1
    then show ?thesis using l by (simp add: strip_padding_def)
  next
    case 2
    have d: "body @ replicate k CHR ''='' = body @ [CHR ''='']" using 2 by simp
    have "length (body @ [CHR ''='']) mod 4 = 0" using len 2 by simp
    then show ?thesis unfolding d using l by (auto simp add: strip_padding_def)
  next
    case 3
    define e where "e = body @ [CHR ''='']"
    have e: "e \<noteq> []" "last e = CHR ''=''" "butlast e = body" by (simp_all add: e_def)
    have d: "body @ replicate k CHR ''='' = e @ [CHR ''='']" using 3 by (simp add: e_def)
    have "length (e @ [CHR ''='']) mod 4 = 0" using len 3 by (simp add: e_def)
    then show ?thesis unfolding d using e by (simp add: strip_padding_def)
  qed
qed

lemma body_last:
  assumes "map base64_char (sextets bin) \<noteq> []"
  shows "last (map base64_char (sextets bin)) \<noteq> CHR ''=''"
proof -
  have "last (map base64_char (sextets bin)) \<in> set (map base64_char (sextets bin))"
    using assms by (rule last_in_set)
  then show ?thesis using body_facts [of bin] unfolding list_all_iff by blast
qed

lemma strip_padding_btoa:
  "strip_padding (btoa bin) = map base64_char (sextets bin)"
proof -
  have "(3 - length bin mod 3) mod 3 < 3" by simp
  moreover have "(length (map base64_char (sextets bin)) + (3 - length bin mod 3) mod 3) mod 4 = 0"
    using length_sextets_mod4(2) [of bin] by (simp add: padding_def)
  ultimately show ?thesis
    unfolding btoa_eq padding_def using body_last by (intro strip_padding_cases)
qed

lemma filter_whitespace_btoa:
  "filter (\<lambda>c. \<not> is_ascii_whitespace c) (btoa bin) = btoa bin"
proof -
  have "\<not> is_ascii_whitespace CHR ''=''" by (simp add: is_ascii_whitespace_def)
  then have "list_all (\<lambda>c. \<not> is_ascii_whitespace c) (padding bin)"
    by (simp add: padding_def list_all_iff)
  moreover have "list_all (\<lambda>c. \<not> is_ascii_whitespace c) (map base64_char (sextets bin))"
    using body_facts [of bin] unfolding list_all_iff by blast
  ultimately show ?thesis unfolding btoa_eq by (simp add: list_all_iff)
qed

lemma atob_btoa: "atob (btoa bin) = Some bin"
proof -
  have "length (map base64_char (sextets bin)) mod 4 \<noteq> 1"
    using length_sextets_mod4(1) [of bin] by simp
  moreover have "those (map base64_index (map base64_char (sextets bin))) = Some (sextets bin)"
    using sextets_lt by (rule those_base64_index)
  ultimately show ?thesis
    unfolding atob_def filter_whitespace_btoa strip_padding_btoa Let_def
    by (simp add: base64_decode_sextets)
qed

lemma replace_all_char: "replace_all c [d] s = map (\<lambda>x. if x = c then d else x) s"
  by (induction s) (simp_all add: replace_all_def)

lemma replace_all_Nil: "replace_all c [] s = filter (\<lambda>x. x \<noteq> c) s"
  by (induction s) (simp_all add: replace_all_def)

lemma uint8ArrayToBase64URL_eq:
  "uint8ArrayToBase64URL bytes =
     filter (\<lambda>c. c \<noteq> CHR ''='') (map url_subst (uint8ArrayToBase64 bytes))"
proof -
  have "(\<lambda>x. if x = CHR ''/'' then CHR ''_'' else x) \<circ> (\<lambda>x. if x = CHR ''+'' then CHR ''-'' else x)
      = url_subst"
    by (rule ext) (simp add: url_subst_def)
  then show ?thesis
    by (simp add: uint8ArrayToBase64URL_def replace_all_char replace_all_Nil)
qed

lemma uint8ArrayToBase64URL_body:
  "uint8ArrayToBase64URL bytes =
     map url_subst (map base64_char (sextets (map String_fromCharCode bytes)))"
proof -
  let ?bin = "map String_fromCharCode bytes"
  let ?body = "map base64_char (sextets ?bin)"
  have "url_subst CHR ''='' = CHR ''=''" by (simp add: url_subst_def)
  then have pad: "filter (\<lambda>c. c \<noteq> CHR ''='') (map url_subst (padding ?bin)) = []"
    by (simp add: padding_def)
  have "list_all (\<lambda>c. c \<noteq> CHR ''='') (map url_subst ?body)"
    using sextets_lt [of ?bin] by (simp add: list_all_iff base64_char_facts)
  then have "filter (\<lambda>c. c \<noteq> CHR ''='') (map url_subst ?body) = map url_subst ?body"
    by (simp add: list_all_iff)
  then show ?thesis
    by (simp add: uint8ArrayToBase64URL_eq uint8ArrayToBase64_eq btoa_eq pad)
qed

text \<open>
  C6. The output of \<^verbatim>\<open>uint8ArrayToBase64URL\<close> holds none of the characters \<open>+\<close>, \<open>/\<close>
  and \<open>=\<close>: it is the standard base64 text of the bytes, as \<^verbatim>\<open>btoa\<close> gives it, with
  \<open>+\<close> replaced by \<open>-\<close>, \<open>/\<close> replaced by \<open>_\<close> and every \<open>=\<close> removed, and each of
  its characters is a letter, a digit, \<open>-\<close> or \<open>_\<close>.
\<close>

theorem uint8ArrayToBase64URL_alphabet:
  "CHR ''+'' \<notin> set (uint8ArrayToBase64URL bytes)
   \<and> CHR ''/'' \<notin> set (uint8ArrayToBase64URL bytes)
   \<and> CHR ''='' \<notin> set (uint8ArrayToBase64URL bytes)
   \<and> uint8ArrayToBase64URL bytes =
       filter (\<lambda>c. c \<noteq> CHR ''='')
         (map (\<lambda>c. if c = CHR ''+'' then CHR ''-'' else if c = CHR ''/'' then CHR ''_'' else c)
           (btoa (map String_fromCharCode bytes)))
   \<and> list_all base64url_char (uint8ArrayToBase64URL bytes)"
proof -
  let ?url = "uint8ArrayToBase64URL bytes"
  have all: "list_all base64url_char ?url"
    using sextets_lt [of "map String_fromCharCode bytes"]
    by (simp add: uint8ArrayToBase64URL_body list_all_iff base64_char_facts)
  have no: "\<not> base64url_char CHR ''+''" "\<not> base64url_char CHR ''/''" "\<not> base64url_char CHR ''=''"
    by (simp_all add: base64url_char_def)
  have "CHR ''+'' \<notin> set ?url" "CHR ''/'' \<notin> set ?url" "CHR ''='' \<notin> set ?url"
    using all no unfolding list_all_iff by blast+
  moreover have "?url = filter (\<lambda>c. c \<noteq> CHR ''='')
      (map (\<lambda>c. if c = CHR ''+'' then CHR ''-'' else if c = CHR ''/'' then CHR ''_'' else c)
        (btoa (map String_fromCharCode bytes)))"
    using uint8ArrayToBase64URL_eq [of bytes]
    by (simp add: uint8ArrayToBase64_eq url_subst_def [abs_def])
  ultimately show ?thesis using all by simp
qed

lemma fromCharCode_inverse_nat: "word_of_nat (of_char (String_fromCharCode b)) = b"
  using fromCharCode_inverse [of b] by simp

lemma map_fromCharCode_inverse:
  "map (\<lambda>c. word_of_int (int (of_char c))) (map String_fromCharCode bytes) = bytes"
  by (induction bytes) (simp_all add: fromCharCode_inverse_nat)

lemma base64ToUint8Array_uint8ArrayToBase64:
  "base64ToUint8Array (uint8ArrayToBase64 bytes) = Some bytes"
  using map_fromCharCode_inverse [of bytes]
  by (simp add: base64ToUint8Array_eq uint8ArrayToBase64_eq atob_btoa)

text \<open>
  C7. Decoding the base64url text of any byte sequence, of any length, gives the byte
  sequence back.
\<close>

theorem fromBase64URL_uint8ArrayToBase64URL:
  "fromBase64URL (uint8ArrayToBase64URL bytes) = Some bytes"
proof -
  let ?bin = "map String_fromCharCode bytes"
  let ?body = "map base64_char (sextets ?bin)"
  let ?url = "uint8ArrayToBase64URL bytes"
  have url: "?url = map url_subst ?body" by (rule uint8ArrayToBase64URL_body)
  have len: "length ?url = length (sextets ?bin)" by (simp add: url)
  have not1: "length ?url mod 4 \<noteq> 1"
    using length_sextets_mod4(1) [of ?bin] by (simp add: len)
  have pad: "replicate ((4 - length ?url mod 4) mod 4) CHR ''='' = padding ?bin"
    using length_sextets_mod4(3) [of ?bin] by (simp add: len padding_def)
  have "map url_unsubst (map url_subst ?body) = ?body"
    using sextets_lt [of ?bin] by (simp add: list_all_iff base64_char_facts)
  moreover have "map url_unsubst (padding ?bin) = padding ?bin"
    by (simp add: padding_def url_unsubst_def)
  ultimately have std: "map url_unsubst (?url @ padding ?bin) = btoa ?bin"
    by (simp add: url btoa_eq)
  have "fromBase64URL ?url = base64ToUint8Array (map url_unsubst (?url @ padding ?bin))"
    using not1 by (simp add: fromBase64URL_def Let_def pad url_unsubst_def [abs_def])
  also have "\<dots> = base64ToUint8Array (uint8ArrayToBase64 bytes)"
    by (simp only: std uint8ArrayToBase64_eq)
  also have "\<dots> = Some bytes" by (rule base64ToUint8Array_uint8ArrayToBase64)
  finally show ?thesis .
qed

section \<open>Properties of the URL generators\<close>


lemma length_generateRandomPSK: "length (generateRandomPSK rnd) = 32"
  by (simp add: generateRandomPSK_def getRandomValues_def)

lemma length_sextets: "length (sextets bin) = (4 * length bin + 2) div 3"
  by (induction bin rule: sextets.induct) (simp_all add: Let_def)

lemma btoa_32:
  assumes "length bin = 32"
  shows "length (btoa bin) = 44" and "last (btoa bin) = CHR ''=''"
proof -
  have p: "padding bin = ''=''" using assms by (simp add: padding_def)
  have "length (sextets bin) = 43" using assms by (simp add: length_sextets)
  then show "length (btoa bin) = 44" by (simp add: btoa_eq p)
  show "last (btoa bin) = CHR ''=''" by (simp add: btoa_eq p)
qed

text \<open>
  C9. Whatever the name argument, omitted or not, and whatever the random values drawn,
  \<^verbatim>\<open>generatePrivateChannelURL\<close> never fails; the key is made of the 32 values drawn for
  this call, in the order drawn; the configuration it encodes has exactly one channel, with
  role 1, with \<open>uplinkEnabled\<close> and \<open>downlinkEnabled\<close> both false and with this key (the name is the argument, or \<open>Private\<close> for an
  omitted or empty one); the \<open>url\<close> field is \<^verbatim>\<open>generateMeshtasticURL\<close> of this
  configuration; the \<open>psk\<close> field is the standard base64 text of the key, 44 characters
  that end with the padding character \<open>=\<close>, and decoding it gives the 32 bytes back.
\<close>

theorem generatePrivateChannelURL_result:
  "\<exists>u ch cs.
     generatePrivateChannelURL rnd channelName =
       Some \<lparr>url = u, psk_base64 = uint8ArrayToBase64 (generateRandomPSK rnd)\<rparr>
     \<and> generateMeshtasticURL (privateChannelConfig channelName (generateRandomPSK rnd)) = Some u
     \<and> channels (privateChannelConfig channelName (generateRandomPSK rnd)) = Some [ch]
     \<and> role ch = Some 1
     \<and> settings ch = Some cs
     \<and> uplinkEnabled cs = Some False
     \<and> downlinkEnabled cs = Some False
     \<and> psk cs = Some (generateRandomPSK rnd)
     \<and> name cs = Some (case channelName of
                        None \<Rightarrow> js_literal ''Private''
                      | Some n \<Rightarrow> if n = [] then js_literal ''Private'' else n)
     \<and> generateRandomPSK rnd = map rnd [0..<32]
     \<and> length (generateRandomPSK rnd) = 32
     \<and> base64ToUint8Array (uint8ArrayToBase64 (generateRandomPSK rnd)) = Some (generateRandomPSK rnd)
     \<and> length (uint8ArrayToBase64 (generateRandomPSK rnd)) = 44
     \<and> last (uint8ArrayToBase64 (generateRandomPSK rnd)) = CHR ''=''"
proof -
  let ?key = "generateRandomPSK rnd"
  let ?config = "privateChannelConfig channelName ?key"
  obtain bs where "buildChannelSet ?config = Some bs"
    using buildChannelSet_eq [of ?config] by blast
  then obtain u where u: "generateMeshtasticURL ?config = Some u"
    by (simp add: generateMeshtasticURL_def)
  have r: "generatePrivateChannelURL rnd channelName =
      Some \<lparr>url = u, psk_base64 = uint8ArrayToBase64 ?key\<rparr>"
    by (simp add: generatePrivateChannelURL_def Let_def u)
  have len: "length (map String_fromCharCode ?key) = 32"
    by (simp add: length_generateRandomPSK)
  have b64: "length (uint8ArrayToBase64 ?key) = 44" "last (uint8ArrayToBase64 ?key) = CHR ''=''"
    using btoa_32 [OF len] by (simp_all add: uint8ArrayToBase64_eq)
  have drawn: "?key = map rnd [0..<32]"
    by (simp add: generateRandomPSK_def getRandomValues_def)
  show ?thesis
    using r u b64 drawn length_generateRandomPSK [of rnd]
      base64ToUint8Array_uint8ArrayToBase64 [of ?key]
    by (simp add: privateChannelConfig_def)
qed

subsection \<open>The network URL\<close>

text \<open>
  The URL of the default network configuration: one channel (index 0, the default key
  \<open>01\<close>, no name on the wire, uplink and downlink enabled, role 1) and the LoRa settings
  (region 1, modem preset 3, hop limit 6, transmission enabled, power 30).
\<close>

lemma hyphae_bytes:
  "buildChannelSet
     \<lparr>lora = Some HYPHAE_MESH_CONFIG_lora,
      channels = Some [\<lparr>index = Some 0,
                        settings = Some
                          \<lparr>channelNum = None,
                           psk = psk HYPHAE_MESH_CONFIG_channel,
                           name = name HYPHAE_MESH_CONFIG_channel,
                           uplinkEnabled = uplinkEnabled HYPHAE_MESH_CONFIG_channel,
                           downlinkEnabled = downlinkEnabled HYPHAE_MESH_CONFIG_channel\<rparr>,
                        role = Some 1\<rparr>]\<rparr>
   = Some [0x0A, 0x0D, 0x08, 0x00, 0x12, 0x07, 0x12, 0x01, 0x01, 0x28, 0x01, 0x30, 0x01, 0x18, 0x01,
           0x12, 0x0A, 0x18, 0x01, 0x20, 0x03, 0x38, 0x06, 0x58, 0x01, 0x60, 0x1E]"
  by (simp add: buildChannelSet_eq channelBytes_def channelSettingsBytes_def loRaConfigBytes_def
      HYPHAE_MESH_CONFIG_lora_def HYPHAE_MESH_CONFIG_channel_def js_literal_def
      lengthDelimitedField_def varintField_def encodeVarint_small)

lemma hyphae_base64:
  "uint8ArrayToBase64
      [0x0A, 0x0D, 0x08, 0x00, 0x12, 0x07, 0x12, 0x01, 0x01, 0x28, 0x01, 0x30, 0x01, 0x18, 0x01,
       0x12, 0x0A, 0x18, 0x01, 0x20, 0x03, 0x38, 0x06, 0x58, 0x01, 0x60, 0x1E]
   = ''Cg0IABIHEgEBKAEwARgBEgoYASADOAZYAWAe''"
  by (simp add: uint8ArrayToBase64_eq String_fromCharCode_def base64_char_def char_of_eq_iff)

lemma generateHyphaeNetworkURL_value:
  "generateHyphaeNetworkURL = Some ''https://meshtastic.org/e/#Cg0IABIHEgEBKAEwARgBEgoYASADOAZYAWAe''"
  unfolding generateHyphaeNetworkURL_def Let_def generateMeshtasticURL_def hyphae_bytes
  by (simp add: uint8ArrayToBase64URL_def hyphae_base64 replace_all_def)

end
